theory Spec2Isabelle
  imports Complex_Main "HOL-Library.Product_Lexorder"
begin

section \<open>The account store of \<open>account_manager.py\<close>\<close>

text \<open>
  \<open>AccountManager\<close> keeps two SQLite tables, \<open>accounts\<close> and \<open>task_history\<close>, and
  every method is one or two SQL statements followed by a commit. The embedding carries the
  content of the two tables as lists of rows in rowid order, together with the two
  \<open>AUTOINCREMENT\<close> counters that SQLite keeps in \<open>sqlite_sequence\<close>. Each mutating method
  is a function from the store to the new store; the clock that \<open>CURRENT_TIMESTAMP\<close> and
  \<open>datetime('now', ...)\<close> read is an explicit argument.

  Conventions of the embedding:
  \<^item> a timestamp is a number of seconds (SQLite writes \<open>CURRENT_TIMESTAMP\<close> with a
    resolution of one second, and compares the normalised texts, which is the order of
    the instants);
  \<^item> a nullable column is an \<open>option\<close>, \<open>None\<close> being SQL \<open>NULL\<close>;
  \<^item> an integer column holds a mathematical integer. An SQLite \<open>INTEGER\<close> has 64 bits:
    the model is the code as long as every integer that is bound or stored satisfies
    \<open>int64\<close>, and a statement about the result of an addition carries that as a
    hypothesis. \<open>SUM\<close> fails when a partial sum leaves the 64 bits, and so does the model;
  \<^item> arguments have the types of the Python annotations (\<open>str\<close>, \<open>bool\<close>, \<open>int\<close>,
    and \<open>str = None\<close> as an optional string);
  \<^item> faults of the storage engine (a full disk, a locked file) are not part of the model.
\<close>

subsection \<open>Rows and tables\<close>

type_synonym timestamp = int

text \<open>One row of \<open>accounts\<close>, column by column as \<open>init_database\<close> declares them.\<close>

record account =
  id_col :: nat
  email :: string
  password :: string
  referral_code :: string
  created_at :: "timestamp option"
  verified :: "int option"
  verification_code :: "string option"
  points :: "int option"
  last_task_run :: "timestamp option"
  status :: "string option"
  cookies :: "string option"
  notes_col :: "string option"

text \<open>One row of \<open>task_history\<close>.\<close>

record task_entry =
  hist_id :: nat
  hist_email :: string
  task_type :: string
  xp_earned :: "int option"
  completed_at :: "timestamp option"
  details :: "string option"

record db =
  accounts :: "account list"
  task_history :: "task_entry list"
  accounts_seq :: nat
  task_history_seq :: nat

subsection \<open>SQL expressions\<close>

text \<open>
  A comparison with \<open>NULL\<close> is \<open>NULL\<close>; \<open>AND\<close> and \<open>OR\<close> are the three-valued
  connectives; a \<open>WHERE\<close> clause keeps the rows on which the condition is true.
\<close>

definition sql_eq :: "'a option \<Rightarrow> 'a option \<Rightarrow> bool option" where
  "sql_eq a b = (case a of None \<Rightarrow> None
                 | Some x \<Rightarrow> (case b of None \<Rightarrow> None | Some y \<Rightarrow> Some (x = y)))"

definition sql_lt :: "timestamp option \<Rightarrow> timestamp option \<Rightarrow> bool option" where
  "sql_lt a b = (case a of None \<Rightarrow> None
                 | Some x \<Rightarrow> (case b of None \<Rightarrow> None | Some y \<Rightarrow> Some (x < y)))"

definition sql_is_null :: "'a option \<Rightarrow> bool option" where
  "sql_is_null a = Some (a = None)"

definition sql_and :: "bool option \<Rightarrow> bool option \<Rightarrow> bool option" where
  "sql_and a b =
     (if a = Some False \<or> b = Some False then Some False
      else if a = Some True \<and> b = Some True then Some True
      else None)"

definition sql_or :: "bool option \<Rightarrow> bool option \<Rightarrow> bool option" where
  "sql_or a b =
     (if a = Some True \<or> b = Some True then Some True
      else if a = Some False \<and> b = Some False then Some False
      else None)"

definition sql_where :: "bool option \<Rightarrow> bool" where
  "sql_where c = (c = Some True)"

text \<open>The sqlite3 module binds Python's \<open>True\<close> as the integer 1 and \<open>False\<close> as 0.\<close>

definition bind_bool :: "bool \<Rightarrow> int" where
  "bind_bool v = (if v then 1 else 0)"

text \<open>The range of an SQLite \<open>INTEGER\<close>, and of a Python \<open>int\<close> that sqlite3 can bind.\<close>

definition int64 :: "int \<Rightarrow> bool" where
  "int64 n = (- (2 ^ 63) \<le> n \<and> n < 2 ^ 63)"

text \<open>
  The rowid of a row inserted into an \<open>AUTOINCREMENT\<close> table: one more than the largest
  rowid the table has ever held.
\<close>

definition next_rowid :: "nat \<Rightarrow> nat list \<Rightarrow> nat" where
  "next_rowid seq ids = Suc (foldr max ids seq)"

text \<open>
  The order of \<open>ORDER BY ... DESC\<close> on a nullable column: \<open>NULL\<close> is smaller than every
  value, so it comes last. Rows with equal keys stay in table order (the engine promises
  no order among them).
\<close>

definition sql_order_less :: "timestamp option \<Rightarrow> timestamp option \<Rightarrow> bool" where
  "sql_order_less a b =
     (case b of None \<Rightarrow> False
      | Some y \<Rightarrow> (case a of None \<Rightarrow> True | Some x \<Rightarrow> x < y))"

fun insert_desc :: "account \<Rightarrow> account list \<Rightarrow> account list" where
  "insert_desc r [] = [r]"
| "insert_desc r (x # xs) =
     (if \<not> sql_order_less (created_at r) (created_at x) then r # x # xs
      else x # insert_desc r xs)"

definition order_by_created_at_desc :: "account list \<Rightarrow> account list" where
  "order_by_created_at_desc rows = foldr insert_desc rows []"

subsection \<open>The methods of \<open>AccountManager\<close>\<close>

text \<open>
  \<open>init_database\<close>: \<open>CREATE TABLE IF NOT EXISTS\<close> for both tables. A file without the
  tables (\<open>None\<close>) gets them empty; existing tables are left as they are.
\<close>

definition init_database :: "db option \<Rightarrow> db" where
  "init_database f =
     (case f of
        None \<Rightarrow> \<lparr>accounts = [], task_history = [], accounts_seq = 0, task_history_seq = 0\<rparr>
      | Some d \<Rightarrow> d)"

text \<open>
  \<open>add_account\<close>: \<open>INSERT OR REPLACE\<close> of the six listed columns. Every row that holds the
  same \<open>email\<close> (the \<open>UNIQUE\<close> column) is deleted, and a new row is inserted: it takes a
  fresh rowid, and each column that the statement does not list takes its default from the
  schema. The method returns \<open>True\<close> after the commit; its \<open>except\<close> branches answer
  faults of the engine only, since the three \<open>NOT NULL\<close> columns receive strings.
\<close>

definition add_account ::
  "timestamp \<Rightarrow> string \<Rightarrow> string \<Rightarrow> string \<Rightarrow> bool \<Rightarrow> string option \<Rightarrow> string option
     \<Rightarrow> db \<Rightarrow> bool \<times> db" where
  "add_account now email' password' referral_code' verified' verification_code' cookies' d =
     (let rowid = next_rowid (accounts_seq d) (map id_col (accounts d));
          row = \<lparr>id_col = rowid, email = email', password = password',
                 referral_code = referral_code', created_at = Some now,
                 verified = Some (bind_bool verified'),
                 verification_code = verification_code', points = Some 0,
                 last_task_run = None, status = Some ''active'',
                 cookies = cookies', notes_col = None\<rparr>
      in (True, d\<lparr>accounts := filter (\<lambda>r. email r \<noteq> email') (accounts d) @ [row],
                   accounts_seq := rowid\<rparr>))"

text \<open>\<open>get_account_by_email\<close>: the first row of the selection, or \<open>None\<close>.\<close>

definition get_account_by_email :: "string \<Rightarrow> db \<Rightarrow> account option" where
  "get_account_by_email email' d = find (\<lambda>r. email r = email') (accounts d)"

definition get_all_accounts :: "db \<Rightarrow> account list" where
  "get_all_accounts d = order_by_created_at_desc (accounts d)"

definition get_verified_accounts :: "db \<Rightarrow> account list" where
  "get_verified_accounts d =
     filter (\<lambda>r. sql_where (sql_and (sql_eq (verified r) (Some 1))
                                     (sql_eq (status r) (Some ''active''))))
            (accounts d)"

definition get_pending_accounts :: "db \<Rightarrow> account list" where
  "get_pending_accounts d =
     filter (\<lambda>r. sql_where (sql_eq (verified r) (Some 0))) (accounts d)"

text \<open>
  \<open>update_account_points\<close>: one \<open>UPDATE\<close> of the rows with that \<open>email\<close>;
  \<open>points + ?\<close> is \<open>NULL\<close> on a \<open>NULL\<close>. The method returns nothing and has no
  \<open>raise\<close>. The sum is the code's as long as the amount, the stored points and their
  sum satisfy \<open>int64\<close>: an amount outside is refused by sqlite3 when it binds it, with the
  row untouched, and a sum outside is stored by SQLite as a floating-point number, and
  neither is in the model.
\<close>

definition update_account_points :: "timestamp \<Rightarrow> string \<Rightarrow> int \<Rightarrow> db \<Rightarrow> db" where
  "update_account_points now email' points_earned d =
     d\<lparr>accounts :=
         map (\<lambda>r. if email r = email'
                   then r\<lparr>points := map_option (\<lambda>p. p + points_earned) (points r),
                          last_task_run := Some now\<rparr>
                   else r)
             (accounts d)\<rparr>"

text \<open>
  \<open>record_task_completion\<close>: one \<open>INSERT\<close> into \<open>task_history\<close>. The \<open>details\<close>
  dictionary is stored as the text \<open>json.dumps\<close> gives, which is a parameter here; an absent
  or empty dictionary is falsy and stored as \<open>NULL\<close>.
\<close>

definition record_task_completion ::
  "((string \<times> string) list \<Rightarrow> string) \<Rightarrow> timestamp \<Rightarrow> string \<Rightarrow> string \<Rightarrow> int
     \<Rightarrow> (string \<times> string) list option \<Rightarrow> db \<Rightarrow> db" where
  "record_task_completion json_dumps now email' task_type' xp_earned' details' d =
     (let rowid = next_rowid (task_history_seq d) (map hist_id (task_history d));
          row = \<lparr>hist_id = rowid, hist_email = email', task_type = task_type',
                 xp_earned = Some xp_earned', completed_at = Some now,
                 details = (case details' of None \<Rightarrow> None
                            | Some kv \<Rightarrow> if kv = [] then None else Some (json_dumps kv))\<rparr>
      in d\<lparr>task_history := task_history d @ [row], task_history_seq := rowid\<rparr>)"

text \<open>
  \<open>get_accounts_needing_tasks\<close>: the modifier is the text \<open>-N hours\<close> built from
  \<open>hours_since\<close>. For a negative \<open>hours_since\<close> the text starts with two minus signs,
  SQLite rejects the modifier and \<open>datetime\<close> is \<open>NULL\<close>.
\<close>

definition datetime_now_minus_hours :: "timestamp \<Rightarrow> int \<Rightarrow> timestamp option" where
  "datetime_now_minus_hours now hours_since =
     (if hours_since < 0 then None else Some (now - hours_since * 3600))"

definition get_accounts_needing_tasks :: "timestamp \<Rightarrow> int \<Rightarrow> db \<Rightarrow> account list" where
  "get_accounts_needing_tasks now hours_since d =
     filter (\<lambda>r. sql_where
               (sql_and (sql_eq (verified r) (Some 1))
                 (sql_and (sql_eq (status r) (Some ''active''))
                   (sql_or (sql_is_null (last_task_run r))
                           (sql_lt (last_task_run r)
                                   (datetime_now_minus_hours now hours_since))))))
            (accounts d)"

text \<open>\<open>delete_account\<close>: two \<open>DELETE\<close> statements, then the commit.\<close>

definition delete_account :: "string \<Rightarrow> db \<Rightarrow> db" where
  "delete_account email' d =
     d\<lparr>accounts := filter (\<lambda>r. email r \<noteq> email') (accounts d),
       task_history := filter (\<lambda>h. hist_email h \<noteq> email') (task_history d)\<rparr>"

text \<open>
  \<open>get_stats\<close>: four aggregate queries, the grouping by \<open>referral_code\<close> and the
  rate, in the order of the source.

  \<open>COUNT(*)\<close> counts the rows on which the condition is true. \<open>SUM\<close> skips \<open>NULL\<close>, adds
  the integers in table order and is \<open>NULL\<close> when there is none; when a partial sum leaves
  the 64 bits the engine reports \<open>integer overflow\<close> and the method raises
  \<open>OperationalError\<close>. \<open>or 0\<close> turns \<open>NULL\<close> (and 0) into 0.
\<close>

datatype py_error = ZeroDivisionError | OperationalError

fun sql_sum_from :: "int option \<Rightarrow> int option list \<Rightarrow> py_error + int option" where
  "sql_sum_from acc [] = Inr acc"
| "sql_sum_from acc (None # vs) = sql_sum_from acc vs"
| "sql_sum_from acc (Some v # vs) =
     (let s = (case acc of None \<Rightarrow> v | Some a \<Rightarrow> a + v)
      in if int64 s then sql_sum_from (Some s) vs else Inl OperationalError)"

definition sql_sum :: "int option list \<Rightarrow> py_error + int option" where
  "sql_sum vs = sql_sum_from None vs"

definition py_or_zero :: "int option \<Rightarrow> int" where
  "py_or_zero v = (case v of None \<Rightarrow> 0 | Some n \<Rightarrow> if n = 0 then 0 else n)"

text \<open>
  The rate is a Python number: the \<open>int\<close> 0, or the \<open>float\<close> that \<open>/\<close> and \<open>*\<close>
  compute. The two floating-point operations are parameters: \<open>float_div a b\<close> is the
  \<open>float\<close> of \<open>a / b\<close> for two \<open>int\<close>s with \<open>b\<close> not 0, and \<open>float_mul x k\<close> the
  \<open>float\<close> of \<open>x * k\<close> for a \<open>float\<close> and an \<open>int\<close>. On a zero divisor \<open>/\<close> raises
  \<open>ZeroDivisionError\<close>.
\<close>

datatype 'f py_number = PyInt int | PyFloat 'f

definition py_truediv :: "(int \<Rightarrow> int \<Rightarrow> 'f) \<Rightarrow> int \<Rightarrow> int \<Rightarrow> py_error + 'f" where
  "py_truediv float_div a b = (if b = 0 then Inl ZeroDivisionError else Inr (float_div a b))"

text \<open>
  \<open>GROUP BY referral_code ORDER BY count DESC\<close>: one pair for each code, the larger
  counts first. SQL leaves the order among equal counts to the engine; \<open>tie_rank\<close> is
  that choice, a parameter.
\<close>

definition group_by_referral_code ::
  "(string \<Rightarrow> nat) \<Rightarrow> account list \<Rightarrow> (string \<times> nat) list" where
  "group_by_referral_code tie_rank rows =
     sort_key (\<lambda>g. (- int (snd g), tie_rank (fst g)))
       (map (\<lambda>c. (c, length (filter (\<lambda>r. referral_code r = c) rows)))
            (remdups (map referral_code rows)))"

record 'f stats =
  total_accounts :: int
  verified_accounts :: int
  pending_accounts :: int
  total_points :: int
  verification_rate :: "'f py_number"
  referral_stats :: "(string \<times> nat) list"

definition get_stats ::
  "(int \<Rightarrow> int \<Rightarrow> 'f) \<Rightarrow> ('f \<Rightarrow> int \<Rightarrow> 'f) \<Rightarrow> (string \<Rightarrow> nat) \<Rightarrow> db
     \<Rightarrow> py_error + 'f stats" where
  "get_stats float_div float_mul tie_rank d =
     (let total = int (length (accounts d));
          verified_n = int (length (filter
                         (\<lambda>r. sql_where (sql_eq (verified r) (Some 1))) (accounts d)));
          pending_n = int (length (filter
                         (\<lambda>r. sql_where (sql_eq (verified r) (Some 0))) (accounts d)))
      in case sql_sum (map points (accounts d)) of
           Inl e \<Rightarrow> Inl e
         | Inr s \<Rightarrow>
             (let points_n = py_or_zero s;
                  referral = group_by_referral_code tie_rank (accounts d);
                  rate = (if total > 0
                          then (case py_truediv float_div verified_n total of
                                  Inl e \<Rightarrow> Inl e
                                | Inr q \<Rightarrow> Inr (PyFloat (float_mul q 100)))
                          else Inr (PyInt 0))
              in case rate of
                   Inl e \<Rightarrow> Inl e
                 | Inr v \<Rightarrow> Inr \<lparr>total_accounts = total, verified_accounts = verified_n,
                                 pending_accounts = pending_n, total_points = points_n,
                                 verification_rate = v, referral_stats = referral\<rparr>))"

subsection \<open>The \<open>json\<close> module\<close>

text \<open>
  \<open>export_to_json\<close> hands a dictionary to \<open>json.dump\<close>. The module belongs to
  Python, not to the repository; its encoder and a reader are written out here for the
  values the store holds: \<open>None\<close>, \<open>bool\<close>, \<open>int\<close>, \<open>str\<close>, lists and dictionaries
  with \<open>str\<close> keys. A character of the model is a code point below 256.
\<close>

datatype json = JNull | JBool bool | JInt int | JStr string | JList "json list"
  | JDict "(string \<times> json) list"


text \<open>
  The encoder, as \<open>json.dump(obj, f, indent=2)\<close> writes: \<open>ensure_ascii\<close> is on, so a
  string keeps the characters from the space to the tilde except the double quote and the
  backslash, and escapes every other one, by its short form or as \<open>\u00XX\<close>; an item of a
  list or of a dictionary starts on a new line, indented by two spaces for each level;
  the items are separated by a comma, a key and its value by a colon and a space.
\<close>

definition hex_digit :: "nat \<Rightarrow> char" where
  "hex_digit n = ''0123456789abcdef'' ! n"

definition escape_char :: "char \<Rightarrow> string" where
  "escape_char c =
     (if c = CHR 0x22 then [CHR 0x5C, CHR 0x22]
      else if c = CHR 0x5C then [CHR 0x5C, CHR 0x5C]
      else if c = CHR 0x0A then [CHR 0x5C, CHR ''n'']
      else if c = CHR 0x0D then [CHR 0x5C, CHR ''r'']
      else if c = CHR 0x09 then [CHR 0x5C, CHR ''t'']
      else if c = CHR 0x08 then [CHR 0x5C, CHR ''b'']
      else if c = CHR 0x0C then [CHR 0x5C, CHR ''f'']
      else if 32 \<le> (of_char c :: nat) \<and> (of_char c :: nat) \<le> 126 then [c]
      else [CHR 0x5C, CHR ''u'', CHR ''0'', CHR ''0'',
            hex_digit (of_char c div 16), hex_digit (of_char c mod 16)])"

definition encode_string :: "string \<Rightarrow> string" where
  "encode_string s = CHR 0x22 # concat (map escape_char s) @ [CHR 0x22]"

fun digits :: "nat \<Rightarrow> string" where
  "digits n = (if n < 10 then [char_of (48 + n)]
               else digits (n div 10) @ [char_of (48 + n mod 10)])"

declare digits.simps [simp del]

definition encode_int :: "int \<Rightarrow> string" where
  "encode_int i = (if i < 0 then CHR ''-'' # digits (nat (- i)) else digits (nat i))"

definition newline_indent :: "nat \<Rightarrow> string" where
  "newline_indent level = CHR 0x0A # replicate (2 * level) CHR '' ''"

fun join_items :: "string \<Rightarrow> string list \<Rightarrow> string" where
  "join_items sep [] = []"
| "join_items sep [x] = x"
| "join_items sep (x # y # ys) = x @ sep @ join_items sep (y # ys)"

definition encode_block :: "char \<Rightarrow> char \<Rightarrow> nat \<Rightarrow> string list \<Rightarrow> string" where
  "encode_block opening closing level items =
     (if items = [] then [opening, closing]
      else opening # newline_indent (Suc level)
           @ join_items (CHR '','' # newline_indent (Suc level)) items
           @ newline_indent level @ [closing])"

fun json_encode :: "json \<Rightarrow> nat \<Rightarrow> string" where
  "json_encode JNull level = ''null''"
| "json_encode (JBool b) level = (if b then ''true'' else ''false'')"
| "json_encode (JInt i) level = encode_int i"
| "json_encode (JStr s) level = encode_string s"
| "json_encode (JList xs) level =
     encode_block CHR ''['' CHR '']'' level (map (\<lambda>x. json_encode x (Suc level)) xs)"
| "json_encode (JDict kvs) level =
     encode_block CHR ''{'' CHR ''}'' level
       (map (\<lambda>kv. encode_string (fst kv) @ '': '' @ json_encode (snd kv) (Suc level)) kvs)"


definition json_dump :: "json \<Rightarrow> string" where
  "json_dump j = json_encode j 0"

text \<open>
  The reader: a parser of JSON texts for the same values. White space may stand before
  and after every token; a number is an integer without a leading zero, a number with a
  fraction or an exponent is not read; a \<open>\u\<close> escape is read up to \<open>00ff\<close>. The
  recursion runs on a counter that \<open>json_load\<close> starts above the length of the text.
\<close>

definition is_ws :: "char \<Rightarrow> bool" where
  "is_ws c = (c = CHR '' '' \<or> c = CHR 0x0A \<or> c = CHR 0x0D \<or> c = CHR 0x09)"

definition skip_ws :: "string \<Rightarrow> string" where
  "skip_ws s = dropWhile is_ws s"

definition is_digit :: "char \<Rightarrow> bool" where
  "is_digit c = (48 \<le> (of_char c :: nat) \<and> (of_char c :: nat) \<le> 57)"

definition digit_val :: "char \<Rightarrow> nat" where
  "digit_val c = of_char c - 48"

definition decode_nat :: "string \<Rightarrow> (nat \<times> string) option" where
  "decode_nat s =
     (let ds = takeWhile is_digit s
      in if ds = [] \<or> (hd ds = CHR ''0'' \<and> tl ds \<noteq> []) then None
         else Some (foldl (\<lambda>a c. 10 * a + digit_val c) 0 ds, dropWhile is_digit s))"

definition decode_int :: "string \<Rightarrow> (int \<times> string) option" where
  "decode_int s =
     (case s of
        [] \<Rightarrow> None
      | c # r \<Rightarrow>
          if c = CHR ''-'' then map_option (apfst (\<lambda>n. - int n)) (decode_nat r)
          else map_option (apfst int) (decode_nat s))"

definition hex_val :: "char \<Rightarrow> nat option" where
  "hex_val c =
     (let n = (of_char c :: nat)
      in if 48 \<le> n \<and> n \<le> 57 then Some (n - 48)
         else if 97 \<le> n \<and> n \<le> 102 then Some (n - 87)
         else if 65 \<le> n \<and> n \<le> 70 then Some (n - 55)
         else None)"

definition simple_escape :: "char \<Rightarrow> char option" where
  "simple_escape e =
     (if e = CHR 0x22 then Some (CHR 0x22)
      else if e = CHR 0x5C then Some (CHR 0x5C)
      else if e = CHR ''/'' then Some CHR ''/''
      else if e = CHR ''n'' then Some (CHR 0x0A)
      else if e = CHR ''r'' then Some (CHR 0x0D)
      else if e = CHR ''t'' then Some (CHR 0x09)
      else if e = CHR ''b'' then Some (CHR 0x08)
      else if e = CHR ''f'' then Some (CHR 0x0C)
      else None)"

fun decode_string :: "string \<Rightarrow> (string \<times> string) option" where
  "decode_string [] = None"
| "decode_string (c # cs) =
     (if c = CHR 0x22 then Some ([], cs)
      else if c = CHR 0x5C then
        (case cs of
           [] \<Rightarrow> None
         | e # r \<Rightarrow>
             if e = CHR ''u'' then
               (case r of
                  h1 # h2 # h3 # h4 # r' \<Rightarrow>
                    (case hex_val h1 of None \<Rightarrow> None | Some a \<Rightarrow>
                     case hex_val h2 of None \<Rightarrow> None | Some b \<Rightarrow>
                     case hex_val h3 of None \<Rightarrow> None | Some c' \<Rightarrow>
                     case hex_val h4 of None \<Rightarrow> None | Some d \<Rightarrow>
                       if a = 0 \<and> b = 0
                       then map_option (apfst (Cons (char_of (16 * c' + d))))
                              (decode_string r')
                       else None)
                | _ \<Rightarrow> None)
             else (case simple_escape e of
                     None \<Rightarrow> None
                   | Some x \<Rightarrow> map_option (apfst (Cons x)) (decode_string r)))
      else if (of_char c :: nat) < 32 then None
      else map_option (apfst (Cons c)) (decode_string cs))"

fun decode_value :: "nat \<Rightarrow> string \<Rightarrow> (json \<times> string) option"
  and decode_elems :: "nat \<Rightarrow> string \<Rightarrow> (json list \<times> string) option"
  and decode_members :: "nat \<Rightarrow> string \<Rightarrow> ((string \<times> json) list \<times> string) option" where
  "decode_value 0 s = None"
| "decode_value (Suc n) s =
     (case skip_ws s of
        [] \<Rightarrow> None
      | c # r \<Rightarrow>
          if c = CHR ''n'' then (if take 3 r = ''ull'' then Some (JNull, drop 3 r) else None)
          else if c = CHR ''t''
            then (if take 3 r = ''rue'' then Some (JBool True, drop 3 r) else None)
          else if c = CHR ''f''
            then (if take 4 r = ''alse'' then Some (JBool False, drop 4 r) else None)
          else if c = CHR 0x22 then map_option (apfst JStr) (decode_string r)
          else if c = CHR ''['' then
            (case skip_ws r of
               [] \<Rightarrow> None
             | c' # r' \<Rightarrow>
                 if c' = CHR '']'' then Some (JList [], r')
                 else map_option (apfst JList) (decode_elems n r))
          else if c = CHR ''{'' then
            (case skip_ws r of
               [] \<Rightarrow> None
             | c' # r' \<Rightarrow>
                 if c' = CHR ''}'' then Some (JDict [], r')
                 else map_option (apfst JDict) (decode_members n r))
          else map_option (apfst JInt) (decode_int (c # r)))"
| "decode_elems 0 s = None"
| "decode_elems (Suc n) s =
     (case decode_value n s of
        None \<Rightarrow> None
      | Some (x, r) \<Rightarrow>
          (case skip_ws r of
             [] \<Rightarrow> None
           | c # r' \<Rightarrow>
               if c = CHR '','' then map_option (apfst (Cons x)) (decode_elems n r')
               else if c = CHR '']'' then Some ([x], r')
               else None))"
| "decode_members 0 s = None"
| "decode_members (Suc n) s =
     (case skip_ws s of
        [] \<Rightarrow> None
      | q # r \<Rightarrow>
          if q \<noteq> CHR 0x22 then None
          else
            (case decode_string r of
               None \<Rightarrow> None
             | Some (k, r1) \<Rightarrow>
                 (case skip_ws r1 of
                    [] \<Rightarrow> None
                  | c # r2 \<Rightarrow>
                      if c \<noteq> CHR '':'' then None
                      else
                        (case decode_value n r2 of
                           None \<Rightarrow> None
                         | Some (v, r3) \<Rightarrow>
                             (case skip_ws r3 of
                                [] \<Rightarrow> None
                              | c' # r4 \<Rightarrow>
                                  if c' = CHR '','' then
                                    map_option (apfst (Cons (k, v))) (decode_members n r4)
                                  else if c' = CHR ''}'' then Some ([(k, v)], r4)
                                  else None)))))"

definition json_load :: "string \<Rightarrow> json option" where
  "json_load s =
     (case decode_value (Suc (length s)) s of
        None \<Rightarrow> None
      | Some (j, r) \<Rightarrow> if skip_ws r = [] then Some j else None)"

text \<open>Classes of characters and of rests of a text, for the proofs about the reader.\<close>

definition ends_number :: "string \<Rightarrow> bool" where
  "ends_number rest = (rest = [] \<or> \<not> is_digit (hd rest))"

definition number_start :: "char \<Rightarrow> bool" where
  "number_start c = (c = CHR ''-'' \<or> is_digit c)"

definition value_start :: "char \<Rightarrow> bool" where
  "value_start c = (\<not> is_ws c \<and> c \<noteq> CHR '']'' \<and> c \<noteq> CHR ''}'')"

text \<open>
  \<open>dict(row)\<close>: the dictionary of a row, with the columns in the order of the table. A
  timestamp comes back from SQLite as its text; \<open>timestamp_text\<close> is that text, a
  parameter.
\<close>

definition json_text :: "string option \<Rightarrow> json" where
  "json_text v = (case v of None \<Rightarrow> JNull | Some s \<Rightarrow> JStr s)"

definition json_integer :: "int option \<Rightarrow> json" where
  "json_integer v = (case v of None \<Rightarrow> JNull | Some n \<Rightarrow> JInt n)"

definition row_to_dict :: "(timestamp \<Rightarrow> string) \<Rightarrow> account \<Rightarrow> json" where
  "row_to_dict timestamp_text r =
     JDict [(''id'', JInt (int (id_col r))),
            (''email'', JStr (email r)),
            (''password'', JStr (password r)),
            (''referral_code'', JStr (referral_code r)),
            (''created_at'', json_text (map_option timestamp_text (created_at r))),
            (''verified'', json_integer (verified r)),
            (''verification_code'', json_text (verification_code r)),
            (''points'', json_integer (points r)),
            (''last_task_run'', json_text (map_option timestamp_text (last_task_run r))),
            (''status'', json_text (status r)),
            (''cookies'', json_text (cookies r)),
            (''notes'', json_text (notes_col r))]"

text \<open>
  \<open>export_to_json\<close>: the text written to the file. \<open>exported_at\<close> is the text of
  \<open>datetime.now().isoformat()\<close>, an argument; the accounts are the dictionaries that
  \<open>get_all_accounts\<close> returned.
\<close>

definition export_to_json :: "(timestamp \<Rightarrow> string) \<Rightarrow> string \<Rightarrow> db \<Rightarrow> string" where
  "export_to_json timestamp_text iso_now d =
     (let accounts' = map (row_to_dict timestamp_text) (get_all_accounts d)
      in json_dump (JDict [(''exported_at'', JStr iso_now),
                           (''total_accounts'', JInt (int (length accounts'))),
                           (''accounts'', JList accounts')]))"

subsection \<open>Sequences of calls\<close>

text \<open>
  The calls that change the store, as data, so that a statement can speak of every call
  and of every sequence of calls. \<open>exec_op\<close> makes the call; \<open>exec_ops\<close> makes the calls
  of a list one after the other.
\<close>

datatype store_op =
    AddAccount timestamp string string string bool "string option" "string option"
  | UpdateAccountPoints timestamp string int
  | RecordTaskCompletion timestamp string string int "(string \<times> string) list option"
  | DeleteAccount string

fun exec_op :: "((string \<times> string) list \<Rightarrow> string) \<Rightarrow> store_op \<Rightarrow> db \<Rightarrow> db" where
  "exec_op jd (AddAccount now e pw rc v vc ck) d = snd (add_account now e pw rc v vc ck d)"
| "exec_op jd (UpdateAccountPoints now e n) d = update_account_points now e n d"
| "exec_op jd (RecordTaskCompletion now e ty xp dt) d =
     record_task_completion jd now e ty xp dt d"
| "exec_op jd (DeleteAccount e) d = delete_account e d"

fun exec_ops :: "((string \<times> string) list \<Rightarrow> string) \<Rightarrow> store_op list \<Rightarrow> db \<Rightarrow> db" where
  "exec_ops jd [] d = d"
| "exec_ops jd (x # xs) d = exec_ops jd xs (exec_op jd x d)"

subsection \<open>Example stores\<close>

text \<open>
  One account is inserted at time 1000, credited with 10 points at time 2000, and inserted
  again at time 3000 with other values and no cookies.
\<close>

definition demo_db1 :: db where
  "demo_db1 = snd (add_account 1000 ''a@example.com'' ''pw1'' ''NPH90834'' True
                     (Some ''4242'') (Some ''sid=1'') (init_database None))"

definition demo_db2 :: db where
  "demo_db2 = update_account_points 2000 ''a@example.com'' 10 demo_db1"

definition demo_db3 :: db where
  "demo_db3 = snd (add_account 3000 ''a@example.com'' ''pw2'' ''NPH90834'' False None None
                     demo_db2)"

definition demo_db4 :: db where
  "demo_db4 = update_account_points 4000 ''a@example.com'' (- 4) demo_db2"

text \<open>
  Five calls after the first insert, none of which inserts \<open>a@example.com\<close> again or
  debits it.
\<close>

definition demo_ops :: "store_op list" where
  "demo_ops = [UpdateAccountPoints 2000 ''a@example.com'' 10,
               RecordTaskCompletion 2001 ''a@example.com'' ''daily'' 10 None,
               AddAccount 2500 ''b@example.com'' ''pw9'' ''NPH90834'' False None None,
               DeleteAccount ''b@example.com'',
               UpdateAccountPoints 2600 ''b@example.com'' (- 3)]"

text \<open>
  Two accounts, each credited once with the largest amount that 64 bits hold.
\<close>

definition demo_big_db :: db where
  "demo_big_db = exec_ops (\<lambda>kv. [])
     [AddAccount 1000 ''a@example.com'' ''pw1'' ''NPH90834'' True None None,
      AddAccount 1001 ''b@example.com'' ''pw2'' ''NPH90834'' False None None,
      UpdateAccountPoints 2000 ''a@example.com'' 9223372036854775807,
      UpdateAccountPoints 2001 ''b@example.com'' 9223372036854775807]
     (init_database None)"

subsection \<open>Classes of calls\<close>

text \<open>\<open>is_add_account_for e\<close>: the call is \<open>add_account\<close> with the email \<open>e\<close>.\<close>

fun is_add_account_for :: "string \<Rightarrow> store_op \<Rightarrow> bool" where
  "is_add_account_for e (AddAccount now e' pw rc v vc ck) = (e' = e)"
| "is_add_account_for e (UpdateAccountPoints now e' n) = False"
| "is_add_account_for e (RecordTaskCompletion now e' ty xp dt) = False"
| "is_add_account_for e (DeleteAccount e') = False"

text \<open>
  \<open>keeps_points_of e\<close>: the call is neither \<open>add_account\<close> with the email \<open>e\<close> nor
  \<open>update_account_points\<close> with the email \<open>e\<close> and a negative amount.
\<close>

fun keeps_points_of :: "string \<Rightarrow> store_op \<Rightarrow> bool" where
  "keeps_points_of e (AddAccount now e' pw rc v vc ck) = (e' \<noteq> e)"
| "keeps_points_of e (UpdateAccountPoints now e' n) = (e' \<noteq> e \<or> 0 \<le> n)"
| "keeps_points_of e (RecordTaskCompletion now e' ty xp dt) = True"
| "keeps_points_of e (DeleteAccount e') = True"

text \<open>The order on the \<open>points\<close> column: \<open>NULL\<close> stays \<open>NULL\<close>, a number does not shrink.\<close>

definition points_le :: "int option \<Rightarrow> int option \<Rightarrow> bool" where
  "points_le a b = (case a of None \<Rightarrow> b = None
                    | Some p \<Rightarrow> (case b of None \<Rightarrow> False | Some q \<Rightarrow> p \<le> q))"

text \<open>
  Four accounts, three of them verified. At time 100000 the first was credited 10 hours
  ago, the second 21 hours ago, the third never; three task completions are recorded.
\<close>

definition demo_due_db :: db where
  "demo_due_db = exec_ops (\<lambda>kv. [])
     [AddAccount 1000 ''a@example.com'' ''pw1'' ''NPH90834'' True None None,
      AddAccount 1001 ''b@example.com'' ''pw2'' ''NPH90834'' True None None,
      AddAccount 1002 ''c@example.com'' ''pw3'' ''NPH90834'' True None None,
      AddAccount 1003 ''d@example.com'' ''pw4'' ''NPH90834'' False None None,
      UpdateAccountPoints 24400 ''b@example.com'' 5,
      UpdateAccountPoints 64000 ''a@example.com'' 5,
      RecordTaskCompletion 64001 ''a@example.com'' ''daily'' 5 None,
      RecordTaskCompletion 64002 ''b@example.com'' ''daily'' 5 (Some [(''k'', ''v'')]),
      RecordTaskCompletion 64003 ''a@example.com'' ''quiz'' 0 (Some [])]
     (init_database None)"

text \<open>A row as \<open>add_account\<close> and \<open>update_account_points\<close> leave it.\<close>

definition demo_row :: "nat \<Rightarrow> string \<Rightarrow> string \<Rightarrow> timestamp \<Rightarrow> int \<Rightarrow> int
    \<Rightarrow> timestamp option \<Rightarrow> account" where
  "demo_row i e pw t v p l =
     \<lparr>id_col = i, email = e, password = pw, referral_code = ''NPH90834'',
      created_at = Some t, verified = Some v, verification_code = None, points = Some p,
      last_task_run = l, status = Some ''active'', cookies = None, notes_col = None\<rparr>"

subsection \<open>The verified flag\<close>

text \<open>Every row holds 0 or 1 in \<open>verified\<close>.\<close>

definition verified_is_flag :: "db \<Rightarrow> bool" where
  "verified_is_flag d =
     list_all (\<lambda>r. verified r = Some 0 \<or> verified r = Some 1) (accounts d)"

section \<open>Properties of the store\<close>

subsection \<open>Looking a row up after each call\<close>

lemma find_append_cases:
  "find P (xs @ ys) = (case find P xs of None \<Rightarrow> find P ys | Some x \<Rightarrow> Some x)"
  by (induction xs) auto

lemma find_filter_excluded: "find P (filter (\<lambda>x. \<not> P x) xs) = None"
  by (induction xs) auto

lemma find_filter_kept:
  "(\<And>x. P x \<Longrightarrow> Q x) \<Longrightarrow> find P (filter Q xs) = find P xs"
  by (induction xs) auto

lemma find_map_same_key:
  "(\<And>x. P (f x) = P x) \<Longrightarrow> find P (map f xs) = map_option f (find P xs)"
  by (induction xs) auto

lemma get_after_add_same:
  "get_account_by_email e (snd (add_account now e pw rc v vc ck d)) =
     Some \<lparr>id_col = next_rowid (accounts_seq d) (map id_col (accounts d)),
           email = e, password = pw, referral_code = rc, created_at = Some now,
           verified = Some (bind_bool v), verification_code = vc, points = Some 0,
           last_task_run = None, status = Some ''active'', cookies = ck,
           notes_col = None\<rparr>"
  by (simp add: get_account_by_email_def add_account_def Let_def find_append_cases
      find_filter_excluded)

lemma find_other_email:
  assumes "e' \<noteq> e"
  shows "find (\<lambda>r. email r = e) (filter (\<lambda>r. email r \<noteq> e') rows) =
         find (\<lambda>r. email r = e) rows"
  by (rule find_filter_kept) (use assms in auto)

lemma get_after_add_other:
  "e' \<noteq> e \<Longrightarrow>
   get_account_by_email e (snd (add_account now e' pw rc v vc ck d)) =
   get_account_by_email e d"
  by (simp add: get_account_by_email_def add_account_def Let_def find_append_cases
      find_other_email split: option.splits)

lemma get_after_update:
  "get_account_by_email e (update_account_points now e' n d) =
   map_option (\<lambda>r. if email r = e'
                    then r\<lparr>points := map_option (\<lambda>p. p + n) (points r),
                           last_task_run := Some now\<rparr>
                    else r)
     (get_account_by_email e d)"
  by (simp add: get_account_by_email_def update_account_points_def find_map_same_key)

lemma get_after_record:
  "get_account_by_email e (record_task_completion jd now e' ty xp dt d) =
   get_account_by_email e d"
  by (simp add: get_account_by_email_def record_task_completion_def Let_def)

lemma get_after_delete_other:
  "e' \<noteq> e \<Longrightarrow> get_account_by_email e (delete_account e' d) = get_account_by_email e d"
  by (simp add: get_account_by_email_def delete_account_def find_other_email)

lemma get_after_delete_same:
  "get_account_by_email e (delete_account e d) = None"
  by (simp add: get_account_by_email_def delete_account_def find_filter_excluded)

lemma get_Some_email: "get_account_by_email e d = Some r \<Longrightarrow> email r = e"
  by (auto simp: get_account_by_email_def find_Some_iff)

subsection \<open>The example stores, evaluated\<close>

lemma demo_db1_row:
  "get_account_by_email ''a@example.com'' demo_db1 =
     Some \<lparr>id_col = 1, email = ''a@example.com'', password = ''pw1'',
           referral_code = ''NPH90834'', created_at = Some 1000, verified = Some 1,
           verification_code = Some ''4242'', points = Some 0, last_task_run = None,
           status = Some ''active'', cookies = Some ''sid=1'', notes_col = None\<rparr>"
  by (simp add: demo_db1_def get_after_add_same init_database_def next_rowid_def
      bind_bool_def)

lemma demo_db2_row:
  "get_account_by_email ''a@example.com'' demo_db2 =
     Some \<lparr>id_col = 1, email = ''a@example.com'', password = ''pw1'',
           referral_code = ''NPH90834'', created_at = Some 1000, verified = Some 1,
           verification_code = Some ''4242'', points = Some 10, last_task_run = Some 2000,
           status = Some ''active'', cookies = Some ''sid=1'', notes_col = None\<rparr>"
  by (simp add: demo_db2_def get_after_update demo_db1_row)

lemma demo_db2_counters:
  "accounts_seq demo_db2 = 1 \<and> map id_col (accounts demo_db2) = [1]"
  by (simp add: demo_db2_def demo_db1_def update_account_points_def add_account_def
      init_database_def next_rowid_def Let_def)

subsection \<open>Inserting an email that is already stored\<close>

text \<open>
  C1. When \<open>email\<close> already has a row, \<open>add_account\<close> returns \<open>True\<close> and the row found
  for that email afterwards holds the supplied password, referral code, verified flag,
  verification code and cookies, while \<open>created_at\<close> is the time of the call, \<open>points\<close>
  is 0, \<open>last_task_run\<close> is \<open>NULL\<close>, \<open>status\<close> is \<open>active\<close> and \<open>notes\<close> is \<open>NULL\<close>:
  nothing of the earlier row is kept. The table holds exactly one row for that email, and
  a call without cookies leaves \<open>cookies\<close> \<open>NULL\<close>.
\<close>

theorem add_account_replaces_row:
  assumes "get_account_by_email e d = Some old"
  shows "fst (add_account now e pw rc v vc ck d) = True \<and>
         get_account_by_email e (snd (add_account now e pw rc v vc ck d)) =
           Some \<lparr>id_col = next_rowid (accounts_seq d) (map id_col (accounts d)),
                 email = e, password = pw, referral_code = rc, created_at = Some now,
                 verified = Some (bind_bool v), verification_code = vc, points = Some 0,
                 last_task_run = None, status = Some ''active'', cookies = ck,
                 notes_col = None\<rparr> \<and>
         length (filter (\<lambda>r. email r = e)
                   (accounts (snd (add_account now e pw rc v vc ck d)))) = 1 \<and>
         map_option cookies
           (get_account_by_email e (snd (add_account now e pw rc v vc None d))) = Some None"
proof -
  have one: "length (filter (\<lambda>r. email r = e)
                   (accounts (snd (add_account now e pw rc v vc ck d)))) = 1"
    by (simp add: add_account_def Let_def)
  show ?thesis
    using one by (simp add: get_after_add_same) (simp add: add_account_def Let_def)
qed

theorem add_account_replaces_row_witness:
  "get_account_by_email ''a@example.com'' demo_db2 =
     Some \<lparr>id_col = 1, email = ''a@example.com'', password = ''pw1'',
           referral_code = ''NPH90834'', created_at = Some 1000, verified = Some 1,
           verification_code = Some ''4242'', points = Some 10, last_task_run = Some 2000,
           status = Some ''active'', cookies = Some ''sid=1'', notes_col = None\<rparr> \<and>
   get_account_by_email ''a@example.com''
     (snd (add_account 3000 ''a@example.com'' ''pw2'' ''NPH90834'' False None None demo_db2)) =
     Some \<lparr>id_col = 2, email = ''a@example.com'', password = ''pw2'',
           referral_code = ''NPH90834'', created_at = Some 3000, verified = Some 0,
           verification_code = None, points = Some 0, last_task_run = None,
           status = Some ''active'', cookies = None, notes_col = None\<rparr>"
  using add_account_replaces_row
    [OF demo_db2_row, of 3000 "''pw2''" "''NPH90834''" False None None]
  by (simp add: demo_db2_row demo_db2_counters next_rowid_def bind_bool_def)

lemma get_delete_Some:
  "get_account_by_email e (delete_account e' d) = Some r \<Longrightarrow>
   get_account_by_email e d = Some r"
  by (cases "e' = e") (simp_all add: get_after_delete_same get_after_delete_other)

lemma demo_ops_result:
  "get_account_by_email ''a@example.com'' (exec_ops jd demo_ops demo_db1) =
     Some \<lparr>id_col = 1, email = ''a@example.com'', password = ''pw1'',
           referral_code = ''NPH90834'', created_at = Some 1000, verified = Some 1,
           verification_code = Some ''4242'', points = Some 10, last_task_run = Some 2000,
           status = Some ''active'', cookies = Some ''sid=1'', notes_col = None\<rparr>"
  by (simp add: demo_ops_def get_after_update get_after_record get_after_add_other
      get_after_delete_other demo_db1_row)

subsection \<open>The creation time\<close>

lemma created_at_step:
  assumes "\<not> is_add_account_for e x"
      and "get_account_by_email e (exec_op jd x d) = Some r'"
  shows "\<exists>r. get_account_by_email e d = Some r \<and> created_at r = created_at r'"
proof (cases x)
  case (AddAccount now e' pw rc v vc ck)
  with assms show ?thesis by (simp add: get_after_add_other)
next
  case (UpdateAccountPoints now e' n)
  with assms show ?thesis by (auto simp: get_after_update)
next
  case (RecordTaskCompletion now e' ty xp dt)
  with assms show ?thesis by (simp add: get_after_record)
next
  case (DeleteAccount e')
  with assms show ?thesis by (auto dest: get_delete_Some)
qed

lemma created_at_steps:
  "list_all (\<lambda>x. \<not> is_add_account_for e x) xs \<Longrightarrow>
   get_account_by_email e (exec_ops jd xs d) = Some r' \<Longrightarrow>
   \<exists>r. get_account_by_email e d = Some r \<and> created_at r = created_at r'"
proof (induction xs arbitrary: d)
  case Nil
  then show ?case by simp
next
  case (Cons x xs)
  from Cons.prems have rest: "list_all (\<lambda>x. \<not> is_add_account_for e x) xs"
    and here: "\<not> is_add_account_for e x"
    and after: "get_account_by_email e (exec_ops jd xs (exec_op jd x d)) = Some r'"
    by simp_all
  from Cons.IH [OF rest after] obtain m where
    m: "get_account_by_email e (exec_op jd x d) = Some m" "created_at m = created_at r'"
    by blast
  from created_at_step [OF here m(1)] m(2) show ?case by auto
qed

text \<open>
  C2, as the code has it. \<open>add_account\<close> sets \<open>created_at\<close> to the time of the call, at the
  first insert of an email and again at every later \<open>add_account\<close> for it. Through every
  sequence of calls that holds no \<open>add_account\<close> for the email, an account that is
  there at the end was there at the start, with the same \<open>created_at\<close>.
\<close>

theorem created_at_set_by_add_account_only:
  "map_option created_at
     (get_account_by_email e (snd (add_account now e pw rc v vc ck d))) = Some (Some now) \<and>
   (list_all (\<lambda>x. \<not> is_add_account_for e x) xs \<longrightarrow>
    get_account_by_email e (exec_ops jd xs d) = Some r' \<longrightarrow>
    (\<exists>r. get_account_by_email e d = Some r \<and> created_at r = created_at r'))"
  using created_at_steps [of e xs jd d r'] by (simp add: get_after_add_same)

theorem created_at_set_by_add_account_only_witness:
  "list_all (\<lambda>x. \<not> is_add_account_for ''a@example.com'' x) demo_ops \<and>
   map_option created_at
     (get_account_by_email ''a@example.com'' (exec_ops (\<lambda>kv. []) demo_ops demo_db1)) =
     Some (Some 1000) \<and>
   map_option created_at (get_account_by_email ''a@example.com'' demo_db1) = Some (Some 1000)"
  using created_at_set_by_add_account_only
    [of "''a@example.com''" 0 "[]" "[]" False None None demo_db1 demo_ops "\<lambda>kv. []"]
  by (simp add: demo_ops_result demo_db1_row) (simp add: demo_ops_def)

text \<open>
  The claim as written fails: the account created at time 1000 has \<open>created_at\<close> 3000
  after the second \<open>add_account\<close> for its email.
\<close>

theorem created_at_reset_counterexample:
  "map_option created_at (get_account_by_email ''a@example.com'' demo_db2) = Some (Some 1000) \<and>
   map_option created_at (get_account_by_email ''a@example.com'' demo_db3) = Some (Some 3000)"
  by (simp add: demo_db2_row demo_db3_def get_after_add_same)

subsection \<open>The points of an account\<close>

lemma points_le_refl: "points_le a a"
  by (simp add: points_le_def split: option.splits)

lemma points_le_trans: "points_le a b \<Longrightarrow> points_le b c \<Longrightarrow> points_le a c"
  by (auto simp: points_le_def split: option.splits)

lemma points_step:
  assumes "keeps_points_of e x"
      and "get_account_by_email e (exec_op jd x d) = Some r'"
  shows "\<exists>r. get_account_by_email e d = Some r \<and> points_le (points r) (points r')"
proof (cases x)
  case (AddAccount now e' pw rc v vc ck)
  with assms show ?thesis by (simp add: get_after_add_other points_le_refl)
next
  case (UpdateAccountPoints now e' n)
  with assms show ?thesis
    by (auto simp: get_after_update points_le_def dest: get_Some_email
        split: option.splits if_splits)
next
  case (RecordTaskCompletion now e' ty xp dt)
  with assms show ?thesis by (simp add: get_after_record points_le_refl)
next
  case (DeleteAccount e')
  with assms show ?thesis by (auto dest: get_delete_Some simp: points_le_refl)
qed

lemma points_steps:
  "list_all (keeps_points_of e) xs \<Longrightarrow>
   get_account_by_email e (exec_ops jd xs d) = Some r' \<Longrightarrow>
   \<exists>r. get_account_by_email e d = Some r \<and> points_le (points r) (points r')"
proof (induction xs arbitrary: d)
  case Nil
  then show ?case by (simp add: points_le_refl)
next
  case (Cons x xs)
  from Cons.prems have rest: "list_all (keeps_points_of e) xs"
    and here: "keeps_points_of e x"
    and after: "get_account_by_email e (exec_ops jd xs (exec_op jd x d)) = Some r'"
    by simp_all
  from Cons.IH [OF rest after] obtain m where
    m: "get_account_by_email e (exec_op jd x d) = Some m" "points_le (points m) (points r')"
    by blast
  from points_step [OF here m(1)] obtain r where
    r: "get_account_by_email e d = Some r" "points_le (points r) (points m)"
    by blast
  from r m(2) show ?case by (blast intro: points_le_trans)
qed

text \<open>
  C3, as the code has it. Through every sequence of calls that holds neither an
  \<open>add_account\<close> for the email nor an \<open>update_account_points\<close> for it with a negative
  amount, the points of an account that is there at the end are at least what they were
  at the start.
\<close>

theorem points_kept_by_credit_and_other_emails:
  assumes "list_all (keeps_points_of e) xs"
      and "get_account_by_email e d = Some r"
      and "points r = Some p"
      and "get_account_by_email e (exec_ops jd xs d) = Some r'"
  shows "\<exists>q. points r' = Some q \<and> p \<le> q"
  using points_steps [OF assms(1) assms(4)] assms(2,3)
  by (auto simp: points_le_def split: option.splits)

theorem points_kept_by_credit_and_other_emails_witness:
  "list_all (keeps_points_of ''a@example.com'') demo_ops \<and>
   map_option points (get_account_by_email ''a@example.com'' demo_db1) = Some (Some 0) \<and>
   map_option points
     (get_account_by_email ''a@example.com'' (exec_ops (\<lambda>kv. []) demo_ops demo_db1)) =
     Some (Some 10)"
proof -
  have safe: "list_all (keeps_points_of ''a@example.com'') demo_ops"
    by (simp add: demo_ops_def)
  have "\<exists>q. Some (10::int) = Some q \<and> (0::int) \<le> q"
    using points_kept_by_credit_and_other_emails
      [OF safe demo_db1_row _ demo_ops_result [of "\<lambda>kv. []"], of 0]
    by simp
  then show ?thesis
    using safe by (simp add: demo_db1_row demo_ops_result)
qed

text \<open>
  The claim as written fails twice on the account that holds 10 points: a call of
  \<open>update_account_points\<close> with the amount -4 leaves 6, and a second \<open>add_account\<close> for
  its email leaves 0.
\<close>

theorem points_decrease_counterexample:
  "map_option points (get_account_by_email ''a@example.com'' demo_db2) = Some (Some 10) \<and>
   map_option points (get_account_by_email ''a@example.com'' demo_db4) = Some (Some 6) \<and>
   map_option points (get_account_by_email ''a@example.com'' demo_db3) = Some (Some 0)"
  by (simp add: demo_db2_row demo_db3_def demo_db4_def get_after_add_same get_after_update)

subsection \<open>Crediting points\<close>

text \<open>
  C4. On an account that is stored, a call of \<open>update_account_points\<close> whose amount and
  whose new total fit in 64 bits adds the amount to \<open>points\<close> and writes the time of the
  call into \<open>last_task_run\<close>, and changes no other column of the row. Starting from 0
  points, a credit of 10 and then a credit of 5 leave 15 points and the time of the second
  call.
\<close>

theorem update_account_points_adds:
  assumes "get_account_by_email e d = Some r"
      and "points r = Some p"
  shows "(int64 n \<and> int64 p \<and> int64 (p + n) \<longrightarrow>
            get_account_by_email e (update_account_points now e n d) =
              Some (r\<lparr>points := Some (p + n), last_task_run := Some now\<rparr>)) \<and>
         (p = 0 \<longrightarrow>
            map_option points
              (get_account_by_email e
                 (update_account_points t2 e 5 (update_account_points t1 e 10 d))) =
              Some (Some 15) \<and>
            map_option last_task_run
              (get_account_by_email e
                 (update_account_points t2 e 5 (update_account_points t1 e 10 d))) =
              Some (Some t2))"
  using assms(1,2) get_Some_email [OF assms(1)] by (simp add: get_after_update)

theorem update_account_points_adds_witness:
  "get_account_by_email ''a@example.com'' demo_db1 \<noteq> None \<and>
   map_option points (get_account_by_email ''a@example.com'' demo_db1) = Some (Some 0) \<and>
   int64 7 \<and> int64 0 \<and> int64 (0 + 7) \<and>
   map_option points
     (get_account_by_email ''a@example.com''
        (update_account_points 2100 ''a@example.com'' 7 demo_db1)) = Some (Some 7) \<and>
   map_option last_task_run
     (get_account_by_email ''a@example.com''
        (update_account_points 2100 ''a@example.com'' 7 demo_db1)) = Some (Some 2100) \<and>
   map_option points
     (get_account_by_email ''a@example.com''
        (update_account_points 2300 ''a@example.com'' 5
           (update_account_points 2200 ''a@example.com'' 10 demo_db1))) = Some (Some 15) \<and>
   map_option last_task_run
     (get_account_by_email ''a@example.com''
        (update_account_points 2300 ''a@example.com'' 5
           (update_account_points 2200 ''a@example.com'' 10 demo_db1))) = Some (Some 2300)"
proof -
  have r: "int64 7" "int64 0" "int64 (0 + 7)"
    by (simp_all add: int64_def)
  from update_account_points_adds [OF demo_db1_row, of 0 7 2100 2300 2200] r
  show ?thesis by (simp add: demo_db1_row)
qed

lemma find_None_map_id:
  "find P xs = None \<Longrightarrow> map (\<lambda>x. if P x then f x else x) xs = xs"
  by (induction xs) (auto split: if_splits)

text \<open>
  C5. \<open>update_account_points\<close> for an email that has no row returns the store as it
  was: both tables and both counters are unchanged. The method has no error result.
\<close>

theorem update_account_points_missing_email:
  assumes "get_account_by_email e d = None"
  shows "update_account_points now e n d = d"
proof -
  from assms have "find (\<lambda>r. email r = e) (accounts d) = None"
    by (simp add: get_account_by_email_def)
  then have "map (\<lambda>r. if email r = e
                       then r\<lparr>points := map_option (\<lambda>p. p + n) (points r),
                              last_task_run := Some now\<rparr>
                       else r) (accounts d) = accounts d"
    by (rule find_None_map_id)
  then show ?thesis by (simp add: update_account_points_def)
qed

theorem update_account_points_missing_email_witness:
  "get_account_by_email ''nobody@example.com'' demo_db2 = None \<and>
   update_account_points 5000 ''nobody@example.com'' 7 demo_db2 = demo_db2"
proof -
  have h: "get_account_by_email ''nobody@example.com'' demo_db2 = None"
    by (simp add: demo_db2_def demo_db1_def get_after_update get_after_add_other)
      (simp add: get_account_by_email_def init_database_def)
  from update_account_points_missing_email [OF h, of 5000 7] h show ?thesis by simp
qed

subsection \<open>Accounts due for tasks\<close>

lemma demo_due_db_accounts:
  "accounts demo_due_db =
     [demo_row 1 ''a@example.com'' ''pw1'' 1000 1 5 (Some 64000),
      demo_row 2 ''b@example.com'' ''pw2'' 1001 1 5 (Some 24400),
      demo_row 3 ''c@example.com'' ''pw3'' 1002 1 0 None,
      demo_row 4 ''d@example.com'' ''pw4'' 1003 0 0 None]"
  by (simp add: demo_due_db_def demo_row_def add_account_def update_account_points_def
      record_task_completion_def init_database_def next_rowid_def bind_bool_def Let_def)

lemma demo_due_db_history:
  "task_history demo_due_db =
     [\<lparr>hist_id = 1, hist_email = ''a@example.com'', task_type = ''daily'',
       xp_earned = Some 5, completed_at = Some 64001, details = None\<rparr>,
      \<lparr>hist_id = 2, hist_email = ''b@example.com'', task_type = ''daily'',
       xp_earned = Some 5, completed_at = Some 64002, details = Some []\<rparr>,
      \<lparr>hist_id = 3, hist_email = ''a@example.com'', task_type = ''quiz'',
       xp_earned = Some 0, completed_at = Some 64003, details = None\<rparr>]"
  by (simp add: demo_due_db_def add_account_def update_account_points_def
      record_task_completion_def init_database_def next_rowid_def Let_def)

lemma needing_tasks_condition:
  "0 \<le> h \<Longrightarrow>
   sql_where
     (sql_and (sql_eq (verified r) (Some 1))
        (sql_and (sql_eq (status r) (Some ''active''))
           (sql_or (sql_is_null (last_task_run r))
                   (sql_lt (last_task_run r) (datetime_now_minus_hours now h))))) =
   (verified r = Some 1 \<and> status r = Some ''active'' \<and>
    (case last_task_run r of None \<Rightarrow> True | Some t \<Rightarrow> t < now - h * 3600))"
  by (cases "verified r"; cases "status r"; cases "last_task_run r")
     (auto simp: sql_where_def sql_and_def sql_or_def sql_eq_def sql_lt_def sql_is_null_def
        datetime_now_minus_hours_def)

text \<open>
  C6. With \<open>hours_since = 20\<close>, \<open>get_accounts_needing_tasks\<close> returns, in table order,
  exactly the rows with \<open>verified = 1\<close> and \<open>status = 'active'\<close> whose \<open>last_task_run\<close> is
  \<open>NULL\<close> or earlier than 20 hours before the call. A verified active account credited
  10 hours ago is left out; one credited 21 hours ago, or never, is returned.
\<close>

theorem get_accounts_needing_tasks_20:
  "get_accounts_needing_tasks now 20 d =
     filter (\<lambda>r. verified r = Some 1 \<and> status r = Some ''active'' \<and>
                 (case last_task_run r of None \<Rightarrow> True | Some t \<Rightarrow> t < now - 20 * 3600))
            (accounts d) \<and>
   (r \<in> set (accounts d) \<and> verified r = Some 1 \<and> status r = Some ''active'' \<longrightarrow>
      (last_task_run r = Some (now - 10 * 3600) \<longrightarrow>
         r \<notin> set (get_accounts_needing_tasks now 20 d)) \<and>
      (last_task_run r = Some (now - 21 * 3600) \<longrightarrow>
         r \<in> set (get_accounts_needing_tasks now 20 d)) \<and>
      (last_task_run r = None \<longrightarrow> r \<in> set (get_accounts_needing_tasks now 20 d)))"
proof -
  have eq: "get_accounts_needing_tasks now 20 d =
     filter (\<lambda>r. verified r = Some 1 \<and> status r = Some ''active'' \<and>
                 (case last_task_run r of None \<Rightarrow> True | Some t \<Rightarrow> t < now - 20 * 3600))
            (accounts d)"
    unfolding get_accounts_needing_tasks_def
    by (simp only: needing_tasks_condition [of 20, simplified])
  show ?thesis
    by (subst (1 2 3 4) eq) simp
qed

theorem get_accounts_needing_tasks_20_witness:
  "accounts demo_due_db =
     [demo_row 1 ''a@example.com'' ''pw1'' 1000 1 5 (Some (100000 - 10 * 3600)),
      demo_row 2 ''b@example.com'' ''pw2'' 1001 1 5 (Some (100000 - 21 * 3600)),
      demo_row 3 ''c@example.com'' ''pw3'' 1002 1 0 None,
      demo_row 4 ''d@example.com'' ''pw4'' 1003 0 0 None] \<and>
   get_accounts_needing_tasks 100000 20 demo_due_db =
     [demo_row 2 ''b@example.com'' ''pw2'' 1001 1 5 (Some (100000 - 21 * 3600)),
      demo_row 3 ''c@example.com'' ''pw3'' 1002 1 0 None]"
  using get_accounts_needing_tasks_20
    [of 100000 demo_due_db "demo_row 2 ''b@example.com'' ''pw2'' 1001 1 5 (Some 24400)"]
  by (simp add: demo_due_db_accounts) (simp add: demo_row_def)


subsection \<open>Deleting an account\<close>

text \<open>
  C7. After \<open>delete_account\<close> no row of \<open>accounts\<close> and no row of \<open>task_history\<close>
  holds that email, also when a task completion was recorded for it just before, and
  \<open>get_account_by_email\<close> finds nothing. The rows of both tables that hold another email
  are all kept, in order and unchanged, and every other email is looked up as before.
\<close>

theorem delete_account_removes_account_and_history:
  "get_account_by_email e (delete_account e d) = None \<and>
   (\<forall>r \<in> set (accounts (delete_account e d)). email r \<noteq> e) \<and>
   (\<forall>h \<in> set (task_history (delete_account e d)). hist_email h \<noteq> e) \<and>
   (\<forall>h \<in> set (task_history
                 (delete_account e (record_task_completion jd now e ty xp dt d))).
      hist_email h \<noteq> e) \<and>
   filter (\<lambda>r. email r \<noteq> e) (accounts d) = accounts (delete_account e d) \<and>
   filter (\<lambda>h. hist_email h \<noteq> e) (task_history d) = task_history (delete_account e d) \<and>
   (\<forall>e'. e' \<noteq> e \<longrightarrow>
      get_account_by_email e' (delete_account e d) = get_account_by_email e' d) \<and>
   accounts_seq (delete_account e d) = accounts_seq d \<and>
   task_history_seq (delete_account e d) = task_history_seq d"
proof -
  have gone: "get_account_by_email e (delete_account e d) = None"
    by (rule get_after_delete_same)
  have others: "\<forall>e'. e' \<noteq> e \<longrightarrow>
      get_account_by_email e' (delete_account e d) = get_account_by_email e' d"
    by (simp add: get_after_delete_other)
  have tables: "(\<forall>r \<in> set (accounts (delete_account e d)). email r \<noteq> e) \<and>
      (\<forall>h \<in> set (task_history (delete_account e d)). hist_email h \<noteq> e) \<and>
      (\<forall>h \<in> set (task_history
                 (delete_account e (record_task_completion jd now e ty xp dt d))).
         hist_email h \<noteq> e) \<and>
      filter (\<lambda>r. email r \<noteq> e) (accounts d) = accounts (delete_account e d) \<and>
      filter (\<lambda>h. hist_email h \<noteq> e) (task_history d) = task_history (delete_account e d) \<and>
      accounts_seq (delete_account e d) = accounts_seq d \<and>
      task_history_seq (delete_account e d) = task_history_seq d"
    by (simp add: delete_account_def)
  from gone others tables show ?thesis by blast
qed

theorem delete_account_removes_account_and_history_witness:
  "map email (accounts demo_due_db) =
     [''a@example.com'', ''b@example.com'', ''c@example.com'', ''d@example.com''] \<and>
   map hist_email (task_history demo_due_db) =
     [''a@example.com'', ''b@example.com'', ''a@example.com''] \<and>
   get_account_by_email ''a@example.com'' (delete_account ''a@example.com'' demo_due_db) = None \<and>
   map email (accounts (delete_account ''a@example.com'' demo_due_db)) =
     [''b@example.com'', ''c@example.com'', ''d@example.com''] \<and>
   map hist_email (task_history (delete_account ''a@example.com'' demo_due_db)) =
     [''b@example.com'']"
proof -
  note inst = delete_account_removes_account_and_history
    [of "''a@example.com''" demo_due_db "\<lambda>kv. []" 0 "[]" 0 None]
  have "get_account_by_email ''a@example.com'' (delete_account ''a@example.com'' demo_due_db) =
        None \<and>
        accounts (delete_account ''a@example.com'' demo_due_db) =
        filter (\<lambda>r. email r \<noteq> ''a@example.com'') (accounts demo_due_db) \<and>
        task_history (delete_account ''a@example.com'' demo_due_db) =
        filter (\<lambda>h. hist_email h \<noteq> ''a@example.com'') (task_history demo_due_db)"
    using inst by simp
  then show ?thesis
    by (simp add: demo_due_db_accounts demo_due_db_history demo_row_def)
qed

subsection \<open>Statistics\<close>

lemma where_verified_eq:
  "sql_where (sql_eq (verified r) (Some k)) = (verified r = Some k)"
  by (simp add: sql_where_def sql_eq_def split: option.splits)

lemma get_stats_no_rows:
  "accounts d = [] \<Longrightarrow>
   get_stats float_div float_mul tie_rank d =
     Inr \<lparr>total_accounts = 0, verified_accounts = 0, pending_accounts = 0, total_points = 0,
          verification_rate = PyInt 0, referral_stats = []\<rparr>"
  by (simp add: get_stats_def sql_sum_def py_or_zero_def group_by_referral_code_def)

lemma get_stats_rows:
  "accounts d \<noteq> [] \<Longrightarrow> sql_sum (map points (accounts d)) = Inr t \<Longrightarrow>
   get_stats float_div float_mul tie_rank d =
     Inr \<lparr>total_accounts = int (length (accounts d)),
          verified_accounts =
            int (length (filter (\<lambda>r. verified r = Some 1) (accounts d))),
          pending_accounts =
            int (length (filter (\<lambda>r. verified r = Some 0) (accounts d))),
          total_points = py_or_zero t,
          verification_rate =
            PyFloat (float_mul
              (float_div (int (length (filter (\<lambda>r. verified r = Some 1) (accounts d))))
                         (int (length (accounts d))))
              100),
          referral_stats = group_by_referral_code tie_rank (accounts d)\<rparr>"
  by (simp add: get_stats_def Let_def py_truediv_def where_verified_eq)

lemma get_stats_sum_fails:
  "sql_sum (map points (accounts d)) = Inl e \<Longrightarrow>
   get_stats float_div float_mul tie_rank d = Inl e"
  by (simp add: get_stats_def Let_def)

lemma sql_sum_from_error: "sql_sum_from acc vs = Inl e \<Longrightarrow> e = OperationalError"
  by (induction acc vs rule: sql_sum_from.induct) (auto simp: Let_def split: if_splits)

lemma get_stats_never_divides_by_zero:
  "get_stats float_div float_mul tie_rank d \<noteq> Inl ZeroDivisionError"
proof (cases "sql_sum (map points (accounts d))")
  case (Inl e)
  then have "e = OperationalError"
    by (auto simp: sql_sum_def dest: sql_sum_from_error)
  with Inl show ?thesis by (simp add: get_stats_sum_fails)
next
  case (Inr t)
  then show ?thesis
    by (cases "accounts d = []") (simp_all add: get_stats_no_rows get_stats_rows)
qed

lemma demo_big_db_accounts:
  "accounts demo_big_db =
     [demo_row 1 ''a@example.com'' ''pw1'' 1000 1 9223372036854775807 (Some 2000),
      demo_row 2 ''b@example.com'' ''pw2'' 1001 0 9223372036854775807 (Some 2001)]"
  by (simp add: demo_big_db_def demo_row_def add_account_def update_account_points_def
      init_database_def next_rowid_def bind_bool_def Let_def)

text \<open>
  On the store with two accounts of 9223372036854775807 points each, every stored number
  fits in 64 bits and the sum does not: \<open>get_stats\<close> raises \<open>OperationalError\<close>.
\<close>

lemma get_stats_demo_big_db:
  "get_stats float_div float_mul tie_rank demo_big_db = Inl OperationalError"
  by (rule get_stats_sum_fails)
     (simp add: demo_big_db_accounts demo_row_def sql_sum_def int64_def)

text \<open>
  C8. \<open>get_stats\<close> never raises \<open>ZeroDivisionError\<close>: the division is guarded. On a store
  without accounts it returns the total 0 and the rate 0, the \<open>int\<close>. On a store with
  accounts whose sum of points fits in 64 bits, it returns the number of rows as the
  total, the numbers of rows with \<open>verified = 1\<close> and with \<open>verified = 0\<close> as the verified
  and the pending accounts, and as the rate the \<open>float\<close> of the verified accounts divided
  by the total, times 100.
\<close>

theorem get_stats_no_division_by_zero:
  "get_stats float_div float_mul tie_rank d \<noteq> Inl ZeroDivisionError \<and>
   (accounts d = [] \<longrightarrow>
      get_stats float_div float_mul tie_rank d =
        Inr \<lparr>total_accounts = 0, verified_accounts = 0, pending_accounts = 0,
             total_points = 0, verification_rate = PyInt 0, referral_stats = []\<rparr>) \<and>
   (accounts d \<noteq> [] \<longrightarrow> sql_sum (map points (accounts d)) = Inr t \<longrightarrow>
      get_stats float_div float_mul tie_rank d =
        Inr \<lparr>total_accounts = int (length (accounts d)),
             verified_accounts =
               int (length (filter (\<lambda>r. verified r = Some 1) (accounts d))),
             pending_accounts =
               int (length (filter (\<lambda>r. verified r = Some 0) (accounts d))),
             total_points = py_or_zero t,
             verification_rate =
               PyFloat (float_mul
                 (float_div
                    (int (length (filter (\<lambda>r. verified r = Some 1) (accounts d))))
                    (int (length (accounts d))))
                 100),
             referral_stats = group_by_referral_code tie_rank (accounts d)\<rparr> \<and>
      int (length (accounts d)) \<noteq> 0)"
  using get_stats_never_divides_by_zero [of float_div float_mul tie_rank d]
    get_stats_no_rows [of d float_div float_mul tie_rank]
    get_stats_rows [of d t float_div float_mul tie_rank]
  by simp

theorem get_stats_no_division_by_zero_witness:
  "accounts (init_database None) = [] \<and>
   map_sum id total_accounts
     (get_stats (\<lambda>a b. (of_int a / of_int b :: rat)) (\<lambda>x k. x * of_int k) (\<lambda>c. 0)
        (init_database None)) = Inr 0 \<and>
   map_sum id verification_rate
     (get_stats (\<lambda>a b. (of_int a / of_int b :: rat)) (\<lambda>x k. x * of_int k) (\<lambda>c. 0)
        (init_database None)) = Inr (PyInt 0) \<and>
   accounts demo_due_db \<noteq> [] \<and>
   sql_sum (map points (accounts demo_due_db)) = Inr (Some 10) \<and>
   map_sum id total_accounts
     (get_stats (\<lambda>a b. (of_int a / of_int b :: rat)) (\<lambda>x k. x * of_int k) (\<lambda>c. 0)
        demo_due_db) = Inr 4 \<and>
   map_sum id verified_accounts
     (get_stats (\<lambda>a b. (of_int a / of_int b :: rat)) (\<lambda>x k. x * of_int k) (\<lambda>c. 0)
        demo_due_db) = Inr 3 \<and>
   map_sum id verification_rate
     (get_stats (\<lambda>a b. (of_int a / of_int b :: rat)) (\<lambda>x k. x * of_int k) (\<lambda>c. 0)
        demo_due_db) = Inr (PyFloat 75)"
proof -
  have e: "accounts (init_database None) = []"
    by (simp add: init_database_def)
  have s: "sql_sum (map points (accounts demo_due_db)) = Inr (Some 10)"
    by (simp add: demo_due_db_accounts demo_row_def sql_sum_def int64_def)
  have n: "accounts demo_due_db \<noteq> []"
    by (simp add: demo_due_db_accounts)
  from get_stats_no_division_by_zero
         [of "\<lambda>a b. (of_int a / of_int b :: rat)" "\<lambda>x k. x * of_int k" "\<lambda>c. 0"
             "init_database None" None]
       get_stats_no_division_by_zero
         [of "\<lambda>a b. (of_int a / of_int b :: rat)" "\<lambda>x k. x * of_int k" "\<lambda>c. 0"
             demo_due_db "Some 10"]
       e s n
  show ?thesis
    by (simp add: demo_due_db_accounts demo_row_def py_or_zero_def)
qed

subsection \<open>The JSON export\<close>

subsubsection \<open>Numbers\<close>

lemma is_digit_char_of: "(k::nat) < 10 \<Longrightarrow> is_digit (char_of (48 + k))"
  by (simp add: is_digit_def)

lemma digit_val_char_of: "(k::nat) < 10 \<Longrightarrow> digit_val (char_of (48 + k)) = k"
  by (simp add: digit_val_def)

lemma digits_all: "\<forall>c \<in> set (digits n). is_digit c"
proof (induction n rule: digits.induct)
  case (1 n)
  then show ?case
    by (subst digits.simps) (auto simp: is_digit_char_of)
qed

lemma digits_nonempty: "digits n \<noteq> []"
  by (subst digits.simps) simp

lemma digits_value: "foldl (\<lambda>a c. 10 * a + digit_val c) 0 (digits n) = n"
proof (induction n rule: digits.induct)
  case (1 n)
  show ?case
  proof (cases "n < 10")
    case True
    then show ?thesis by (subst digits.simps) (simp add: digit_val_char_of)
  next
    case False
    with 1 show ?thesis
      by (subst digits.simps) (simp add: digit_val_char_of)
  qed
qed

lemma char_of_zero: "(k::nat) < 10 \<Longrightarrow> (char_of (48 + k) = CHR ''0'') = (k = 0)"
proof -
  assume k: "(k::nat) < 10"
  have "(char_of (48 + k) = CHR ''0'') = ((of_char (char_of (48 + k)) :: nat) = of_char CHR ''0'')"
    by (simp only: of_char_eq_iff)
  also have "\<dots> = (k = 0)" using k by simp
  finally show ?thesis .
qed

lemma digits_leading: "hd (digits n) = CHR ''0'' \<Longrightarrow> tl (digits n) = []"
proof (induction n rule: digits.induct)
  case (1 n)
  show ?case
  proof (cases "n < 10")
    case True
    then show ?thesis by (subst digits.simps) simp
  next
    case False
    then have d: "digits n = digits (n div 10) @ [char_of (48 + n mod 10)]"
      by (subst digits.simps) simp
    from False 1 d have "hd (digits (n div 10)) = CHR ''0''"
      by (simp add: digits_nonempty)
    with 1 False have t: "tl (digits (n div 10)) = []" by simp
    obtain c where c: "digits (n div 10) = [c]"
      using t digits_nonempty [of "n div 10"] by (cases "digits (n div 10)") auto
    have small: "n div 10 < 10 \<Longrightarrow> digits (n div 10) = [char_of (48 + n div 10)]"
      by (subst digits.simps) simp
    have big: "\<not> n div 10 < 10 \<Longrightarrow> length (digits (n div 10)) \<ge> 2"
      by (subst digits.simps) (simp add: Suc_le_eq digits_nonempty)
    from c big have lt: "n div 10 < 10" by (cases "n div 10 < 10") auto
    from small [OF lt] \<open>hd (digits (n div 10)) = CHR ''0''\<close> lt
    have "n div 10 = 0" by (simp add: char_of_zero)
    with False show ?thesis by simp
  qed
qed

lemma takeWhile_digits:
  "ends_number rest \<Longrightarrow> takeWhile is_digit (digits n @ rest) = digits n"
  using digits_all [of n]
  by (cases rest) (auto simp: ends_number_def takeWhile_append2 takeWhile_eq_all_conv [THEN iffD2])

lemma dropWhile_digits:
  "ends_number rest \<Longrightarrow> dropWhile is_digit (digits n @ rest) = rest"
  using digits_all [of n]
  by (cases rest) (auto simp: ends_number_def dropWhile_append2)

lemma decode_nat_digits:
  "ends_number rest \<Longrightarrow> decode_nat (digits n @ rest) = Some (n, rest)"
  using digits_leading [of n]
  by (auto simp: decode_nat_def Let_def takeWhile_digits dropWhile_digits digits_nonempty
      digits_value)

lemma hd_digits_not_minus: "hd (digits n @ rest) \<noteq> CHR ''-''"
proof -
  have "is_digit (hd (digits n))"
    using digits_all [of n] digits_nonempty [of n] by (cases "digits n") auto
  then show ?thesis
    using digits_nonempty [of n] by (cases "digits n") (auto simp: is_digit_def)
qed

lemma decode_int_encode_int:
  assumes "ends_number rest"
  shows "decode_int (encode_int i @ rest) = Some (i, rest)"
proof (cases "i < 0")
  case True
  then show ?thesis
    by (simp add: decode_int_def encode_int_def decode_nat_digits [OF assms])
next
  case False
  obtain c t where ct: "digits (nat i) @ rest = c # t"
    using digits_nonempty [of "nat i"] by (cases "digits (nat i)") auto
  with hd_digits_not_minus [of "nat i" rest] have "c \<noteq> CHR ''-''" by simp
  with False ct show ?thesis
    using decode_nat_digits [OF assms, of "nat i"]
    by (simp add: decode_int_def encode_int_def)
qed


subsubsection \<open>Strings\<close>

lemma hex_val_hex_digit: "k < 16 \<Longrightarrow> hex_val (hex_digit k) = Some k"
proof -
  have "\<forall>k \<in> set [0..<16]. hex_val (hex_digit k) = Some k"
    by (simp add: upt_rec hex_val_def hex_digit_def)
  then show "k < 16 \<Longrightarrow> hex_val (hex_digit k) = Some k" by simp
qed

lemma hex_val_zero: "hex_val CHR ''0'' = Some 0"
  by (simp add: hex_val_def)

lemma char_of_nibbles: "char_of (16 * ((of_char c :: nat) div 16) + of_char c mod 16) = c"
  by simp

lemma of_char_less: "(of_char c :: nat) div 16 < 16" "(of_char c :: nat) mod 16 < 16"
proof -
  have "(of_char c :: nat) < 256" by simp
  then show "(of_char c :: nat) div 16 < 16" by (simp add: less_mult_imp_div_less)
  show "(of_char c :: nat) mod 16 < 16" by simp
qed

lemma decode_string_escape:
  "decode_string (escape_char c @ s) = map_option (apfst (Cons c)) (decode_string s)"
proof -
  consider (quote) "c = CHR 0x22" | (backslash) "c = CHR 0x5C" | (nl) "c = CHR 0x0A"
    | (cr) "c = CHR 0x0D" | (tab) "c = CHR 0x09" | (bs) "c = CHR 0x08" | (ff) "c = CHR 0x0C"
    | (plain) "c \<notin> {CHR 0x22, CHR 0x5C, CHR 0x0A, CHR 0x0D, CHR 0x09, CHR 0x08, CHR 0x0C}"
        "32 \<le> (of_char c :: nat)" "(of_char c :: nat) \<le> 126"
    | (other) "c \<notin> {CHR 0x22, CHR 0x5C, CHR 0x0A, CHR 0x0D, CHR 0x09, CHR 0x08, CHR 0x0C}"
        "\<not> (32 \<le> (of_char c :: nat) \<and> (of_char c :: nat) \<le> 126)"
    by blast
  then show ?thesis
  proof cases
    case plain
    then show ?thesis by (simp add: escape_char_def)
  next
    case other
    then have "escape_char c = [CHR 0x5C, CHR ''u'', CHR ''0'', CHR ''0'',
        hex_digit (of_char c div 16), hex_digit (of_char c mod 16)]"
      by (simp add: escape_char_def)
    then show ?thesis
      by (simp add: hex_val_zero hex_val_hex_digit of_char_less)
  qed (simp_all add: escape_char_def simple_escape_def)
qed

lemma decode_string_encoded:
  "decode_string (concat (map escape_char t) @ CHR 0x22 # rest) = Some (t, rest)"
proof (induction t)
  case Nil
  show ?case by simp
next
  case (Cons c t)
  then show ?case
    by (simp add: decode_string_escape del: decode_string.simps(2))
qed

lemma decode_string_encode_string:
  "decode_string (tl (encode_string t) @ rest) = Some (t, rest)"
  by (simp add: encode_string_def decode_string_encoded)


subsubsection \<open>White space and first characters\<close>

lemma skip_ws_spaces: "skip_ws (replicate k CHR '' '' @ s) = skip_ws s"
  by (induction k) (simp_all add: skip_ws_def is_ws_def)

lemma skip_ws_newline_indent: "skip_ws (newline_indent l @ s) = skip_ws s"
  using skip_ws_spaces [of "2 * l" s]
  by (simp add: skip_ws_def newline_indent_def is_ws_def)

lemma skip_ws_space: "skip_ws (CHR '' '' # s) = skip_ws s"
  by (simp add: skip_ws_def is_ws_def)

lemma skip_ws_keep: "\<not> is_ws c \<Longrightarrow> skip_ws (c # s) = c # s"
  by (simp add: skip_ws_def)

lemma decode_value_skip: "skip_ws s = skip_ws s' \<Longrightarrow> decode_value n s = decode_value n s'"
  by (cases n) simp_all

lemma decode_members_skip:
  "skip_ws s = skip_ws s' \<Longrightarrow> decode_members n s = decode_members n s'"
  by (cases n) simp_all

lemma number_start_facts:
  "number_start c \<Longrightarrow>
   \<not> is_ws c \<and> c \<noteq> CHR ''n'' \<and> c \<noteq> CHR ''t'' \<and> c \<noteq> CHR ''f'' \<and> c \<noteq> CHR 0x22 \<and>
   c \<noteq> CHR ''['' \<and> c \<noteq> CHR ''{'' \<and> c \<noteq> CHR '']'' \<and> c \<noteq> CHR ''}''"
  by (auto simp: number_start_def is_digit_def is_ws_def)

lemma encode_int_start: "\<exists>c t. encode_int i = c # t \<and> number_start c"
proof -
  have "\<exists>c t. digits n = c # t \<and> is_digit c" for n
    using digits_all [of n] digits_nonempty [of n] by (cases "digits n") auto
  then obtain c t where "digits (nat \<bar>i\<bar>) = c # t" "is_digit c"
    by blast
  then show ?thesis
    by (cases "i < 0") (simp_all add: encode_int_def number_start_def abs_if)
qed

lemma encode_block_start:
  "value_start opening \<Longrightarrow>
   \<exists>c t. encode_block opening closing l items = c # t \<and> value_start c"
  by (simp add: encode_block_def)

lemma encode_start: "\<exists>c t. json_encode j l = c # t \<and> value_start c"
proof (cases j)
  case (JInt i)
  with encode_int_start [of i] show ?thesis
    by (auto simp: value_start_def dest: number_start_facts)
next
  case (JList xs)
  then show ?thesis
    using encode_block_start [of "CHR ''[''"] by (simp add: value_start_def is_ws_def)
next
  case (JDict kvs)
  then show ?thesis
    using encode_block_start [of "CHR ''{''"] by (simp add: value_start_def is_ws_def)
qed (auto simp: value_start_def is_ws_def encode_string_def)

lemma join_items_Cons:
  "es \<noteq> [] \<Longrightarrow> join_items sep (e # es) = e @ sep @ join_items sep es"
  by (cases es) simp_all

subsubsection \<open>Atoms\<close>

lemma decode_value_number:
  "number_start c \<Longrightarrow>
   decode_value (Suc m) (c # t) = map_option (apfst JInt) (decode_int (c # t))"
  using number_start_facts [of c] by (simp add: skip_ws_keep)

declare decode_value.simps(2) [simp del]
declare decode_elems.simps(2) [simp del]
declare decode_members.simps(2) [simp del]

lemma decode_value_int:
  assumes "ends_number rest"
  shows "decode_value (Suc m) (encode_int i @ rest) = Some (JInt i, rest)"
proof -
  obtain c t where ct: "encode_int i = c # t" "number_start c"
    using encode_int_start by blast
  have "decode_value (Suc m) (encode_int i @ rest) =
        map_option (apfst JInt) (decode_int (encode_int i @ rest))"
    using decode_value_number [OF ct(2), of m "t @ rest"] ct(1) by simp
  then show ?thesis
    by (simp add: decode_int_encode_int [OF assms])
qed

lemma decode_value_string:
  "decode_value (Suc m) (encode_string t @ rest) = Some (JStr t, rest)"
  by (simp add: decode_value.simps(2) encode_string_def skip_ws_keep is_ws_def
      decode_string_encoded)


subsubsection \<open>Lists and dictionaries\<close>

lemma ends_number_comma: "ends_number (CHR '','' # s)"
  by (simp add: ends_number_def is_digit_def)

lemma ends_number_newline: "ends_number (newline_indent l @ s)"
  by (simp add: ends_number_def is_digit_def newline_indent_def)

lemma skip_ws_closing:
  "skip_ws (newline_indent l @ CHR '']'' # rest) = CHR '']'' # rest"
  "skip_ws (newline_indent l @ CHR ''}'' # rest) = CHR ''}'' # rest"
  by (simp_all add: skip_ws_newline_indent skip_ws_keep is_ws_def)

lemma decode_elems_items:
  assumes "\<And>x n l rest. x \<in> set xs \<Longrightarrow> size x < n \<Longrightarrow> ends_number rest \<Longrightarrow>
             decode_value n (json_encode x l @ rest) = Some (x, rest)"
      and "xs \<noteq> []"
      and "size_list size xs < m"
  shows "decode_elems m
           (newline_indent L
            @ join_items (CHR '','' # newline_indent L) (map (\<lambda>x. json_encode x L) xs)
            @ newline_indent l @ CHR '']'' # rest) =
         Some (xs, rest)"
  using assms
proof (induction xs arbitrary: m)
  case Nil
  then show ?case by simp
next
  case (Cons x xs)
  from Cons.prems(3) obtain m' where m: "m = Suc m'" "size x < m'" "size_list size xs < m'"
    by (cases m) auto
  have val: "decode_value m' (newline_indent L @ json_encode x L @ R) = Some (x, R)"
    if "ends_number R" for R
  proof -
    have "decode_value m' (newline_indent L @ json_encode x L @ R) =
          decode_value m' (json_encode x L @ R)"
      by (rule decode_value_skip) (simp add: skip_ws_newline_indent)
    with Cons.prems(1) [of x m' R L] m(2) that show ?thesis by simp
  qed
  show ?case
  proof (cases "xs = []")
    case True
    with val [OF ends_number_newline, of l "CHR '']'' # rest"] m(1) show ?thesis
      by (simp add: decode_elems.simps(2) skip_ws_closing)
  next
    case False
    have rec: "decode_elems m'
        (newline_indent L
         @ join_items (CHR '','' # newline_indent L) (map (\<lambda>x. json_encode x L) xs)
         @ newline_indent l @ CHR '']'' # rest) = Some (xs, rest)"
      by (rule Cons.IH [OF _ False m(3)]) (rule Cons.prems(1), auto)
    from False have j: "join_items (CHR '','' # newline_indent L)
          (json_encode x L # map (\<lambda>x. json_encode x L) xs) =
        json_encode x L @ CHR '','' # newline_indent L
          @ join_items (CHR '','' # newline_indent L) (map (\<lambda>x. json_encode x L) xs)"
      by (simp add: join_items_Cons)
    from val [OF ends_number_comma] rec m(1) show ?thesis
      by (simp add: j decode_elems.simps(2) skip_ws_keep is_ws_def)
  qed
qed

lemma decode_key:
  "decode_members (Suc m') (newline_indent L @ encode_string k @ '': '' @ s) =
     (case decode_value m' s of
        None \<Rightarrow> None
      | Some (v, r3) \<Rightarrow>
          (case skip_ws r3 of
             [] \<Rightarrow> None
           | c' # r4 \<Rightarrow>
               if c' = CHR '','' then map_option (apfst (Cons (k, v))) (decode_members m' r4)
               else if c' = CHR ''}'' then Some ([(k, v)], r4)
               else None))"
proof -
  have v: "decode_value m' (CHR '' '' # s) = decode_value m' s"
    by (rule decode_value_skip) (simp add: skip_ws_space)
  show ?thesis
    by (simp add: decode_members.simps(2) skip_ws_newline_indent encode_string_def
        skip_ws_keep is_ws_def decode_string_encoded v)
qed

lemma decode_members_items:
  assumes "\<And>k v n l rest. (k, v) \<in> set kvs \<Longrightarrow> size v < n \<Longrightarrow> ends_number rest \<Longrightarrow>
             decode_value n (json_encode v l @ rest) = Some (v, rest)"
      and "kvs \<noteq> []"
      and "size_list (size_prod (\<lambda>x. 0) size) kvs < m"
  shows "decode_members m
           (newline_indent L
            @ join_items (CHR '','' # newline_indent L)
                (map (\<lambda>kv. encode_string (fst kv) @ '': '' @ json_encode (snd kv) L) kvs)
            @ newline_indent l @ CHR ''}'' # rest) =
         Some (kvs, rest)"
  using assms
proof (induction kvs arbitrary: m)
  case Nil
  then show ?case by simp
next
  case (Cons kv kvs)
  obtain k v where kv: "kv = (k, v)" by (cases kv)
  from Cons.prems(3) kv obtain m' where
    m: "m = Suc m'" "size v < m'" "size_list (size_prod (\<lambda>x. 0) size) kvs < m'"
    by (cases m) auto
  have val: "decode_value m' (json_encode v L @ R) = Some (v, R)" if "ends_number R" for R
    using Cons.prems(1) [of k v m' R L] kv m(2) that by simp
  show ?case
  proof (cases "kvs = []")
    case True
    have "decode_value m' (json_encode v L @ newline_indent l @ CHR ''}'' # rest) =
          Some (v, newline_indent l @ CHR ''}'' # rest)"
      by (rule val) (rule ends_number_newline)
    then have "decode_members (Suc m')
        (newline_indent L @ encode_string k @ '': '' @ json_encode v L
         @ newline_indent l @ CHR ''}'' # rest) = Some ([(k, v)], rest)"
      by (simp only: decode_key) (simp add: skip_ws_closing)
    with True m(1) kv show ?thesis by simp
  next
    case False
    have rec: "decode_members m'
        (newline_indent L
         @ join_items (CHR '','' # newline_indent L)
             (map (\<lambda>kv. encode_string (fst kv) @ '': '' @ json_encode (snd kv) L) kvs)
         @ newline_indent l @ CHR ''}'' # rest) = Some (kvs, rest)"
      by (rule Cons.IH [OF _ False m(3)]) (rule Cons.prems(1), auto)
    let ?tail = "CHR '','' # newline_indent L
         @ join_items (CHR '','' # newline_indent L)
             (map (\<lambda>kv. encode_string (fst kv) @ '': '' @ json_encode (snd kv) L) kvs)
         @ newline_indent l @ CHR ''}'' # rest"
    from False kv have j: "newline_indent L
         @ join_items (CHR '','' # newline_indent L)
             (map (\<lambda>kv. encode_string (fst kv) @ '': '' @ json_encode (snd kv) L) (kv # kvs))
         @ newline_indent l @ CHR ''}'' # rest =
        newline_indent L @ encode_string k @ '': '' @ json_encode v L @ ?tail"
      by (simp add: join_items_Cons)
    have "ends_number ?tail" by (rule ends_number_comma)
    then have "decode_value m' (json_encode v L @ ?tail) = Some (v, ?tail)" by (rule val)
    with rec have "decode_members (Suc m')
        (newline_indent L @ encode_string k @ '': '' @ json_encode v L @ ?tail) =
        Some ((k, v) # kvs, rest)"
      by (simp only: decode_key) (simp add: skip_ws_keep is_ws_def)
    with m(1) kv j show ?thesis by simp
  qed
qed

lemma join_items_start:
  assumes "items \<noteq> []" and "\<And>i. i \<in> set items \<Longrightarrow> \<exists>c t. i = c # t \<and> value_start c"
  shows "\<exists>c t. join_items sep items @ s = c # t \<and> value_start c"
proof (cases items)
  case Nil
  with assms show ?thesis by simp
next
  case (Cons i is')
  with assms(2) [of i] obtain c t where "i = c # t" "value_start c" by auto
  with Cons show ?thesis by (cases is') auto
qed

lemma decode_block_list:
  assumes "items \<noteq> []" and "\<And>i. i \<in> set items \<Longrightarrow> \<exists>c t. i = c # t \<and> value_start c"
  shows "decode_value (Suc m)
           (CHR ''['' # newline_indent L @ join_items sep items @ s) =
         map_option (apfst JList)
           (decode_elems m (newline_indent L @ join_items sep items @ s))"
proof -
  obtain c t where ct: "join_items sep items @ s = c # t" "value_start c"
    using join_items_start [OF assms] by blast
  then have "skip_ws (newline_indent L @ join_items sep items @ s) = c # t"
    by (simp add: skip_ws_newline_indent skip_ws_keep value_start_def)
  with ct(2) show ?thesis
    by (simp add: decode_value.simps(2) skip_ws_keep is_ws_def value_start_def)
qed

lemma decode_block_dict:
  assumes "items \<noteq> []" and "\<And>i. i \<in> set items \<Longrightarrow> \<exists>c t. i = c # t \<and> value_start c"
  shows "decode_value (Suc m)
           (CHR ''{'' # newline_indent L @ join_items sep items @ s) =
         map_option (apfst JDict)
           (decode_members m (newline_indent L @ join_items sep items @ s))"
proof -
  obtain c t where ct: "join_items sep items @ s = c # t" "value_start c"
    using join_items_start [OF assms] by blast
  then have "skip_ws (newline_indent L @ join_items sep items @ s) = c # t"
    by (simp add: skip_ws_newline_indent skip_ws_keep value_start_def)
  with ct(2) show ?thesis
    by (simp add: decode_value.simps(2) skip_ws_keep is_ws_def value_start_def)
qed

lemma decode_value_encode:
  "size j < n \<Longrightarrow> ends_number rest \<Longrightarrow> decode_value n (json_encode j l @ rest) = Some (j, rest)"
proof (induction j arbitrary: n l rest)
  case JNull
  then obtain m where "n = Suc m" by (cases n) auto
  then show ?case by (simp add: decode_value.simps(2) skip_ws_keep is_ws_def)
next
  case (JBool b)
  then obtain m where "n = Suc m" by (cases n) auto
  then show ?case by (simp add: decode_value.simps(2) skip_ws_keep is_ws_def)
next
  case (JInt i)
  then obtain m where "n = Suc m" by (cases n) auto
  with JInt show ?case by (simp add: decode_value_int)
next
  case (JStr t)
  then obtain m where "n = Suc m" by (cases n) auto
  then show ?case by (simp add: decode_value_string)
next
  case (JList xs)
  from JList.prems obtain m where m: "n = Suc m" "size_list size xs < m"
    by (cases n) auto
  show ?case
  proof (cases "xs = []")
    case True
    with m show ?thesis
      by (simp add: decode_value.simps(2) encode_block_def skip_ws_keep is_ws_def)
  next
    case False
    have starts: "\<And>i. i \<in> set (map (\<lambda>x. json_encode x (Suc l)) xs) \<Longrightarrow>
        \<exists>c t. i = c # t \<and> value_start c"
      using encode_start by auto
    have "decode_elems m
           (newline_indent (Suc l)
            @ join_items (CHR '','' # newline_indent (Suc l)) (map (\<lambda>x. json_encode x (Suc l)) xs)
            @ newline_indent l @ CHR '']'' # rest) = Some (xs, rest)"
      by (rule decode_elems_items [OF _ False m(2)]) (rule JList.IH)
    with False m(1) show ?thesis
      using decode_block_list
          [where items = "map (\<lambda>x. json_encode x (Suc l)) xs" and m = m and L = "Suc l"
             and sep = "CHR '','' # newline_indent (Suc l)"
             and s = "newline_indent l @ CHR '']'' # rest", OF _ starts]
      by (simp add: encode_block_def)
  qed
next
  case (JDict kvs)
  from JDict.prems obtain m where
    m: "n = Suc m" "size_list (size_prod (\<lambda>x. 0) size) kvs < m"
    by (cases n) auto
  show ?case
  proof (cases "kvs = []")
    case True
    with m show ?thesis
      by (simp add: decode_value.simps(2) encode_block_def skip_ws_keep is_ws_def)
  next
    case False
    have starts: "\<And>i. i \<in> set (map (\<lambda>kv. encode_string (fst kv) @ '': ''
           @ json_encode (snd kv) (Suc l)) kvs) \<Longrightarrow>
        \<exists>c t. i = c # t \<and> value_start c"
      by (auto simp: encode_string_def value_start_def is_ws_def)
    have ih: "\<And>k v n l rest. (k, v) \<in> set kvs \<Longrightarrow> size v < n \<Longrightarrow> ends_number rest \<Longrightarrow>
             decode_value n (json_encode v l @ rest) = Some (v, rest)"
      by (rule JDict.IH) auto
    have "decode_members m
           (newline_indent (Suc l)
            @ join_items (CHR '','' # newline_indent (Suc l))
                (map (\<lambda>kv. encode_string (fst kv) @ '': '' @ json_encode (snd kv) (Suc l)) kvs)
            @ newline_indent l @ CHR ''}'' # rest) = Some (kvs, rest)"
      by (rule decode_members_items [OF ih False m(2)])
    with False m(1) show ?thesis
      using decode_block_dict
          [where items = "map (\<lambda>kv. encode_string (fst kv) @ '': ''
                 @ json_encode (snd kv) (Suc l)) kvs" and m = m and L = "Suc l"
             and sep = "CHR '','' # newline_indent (Suc l)"
             and s = "newline_indent l @ CHR ''}'' # rest", OF _ starts]
      by (simp add: encode_block_def)
  qed
qed

subsubsection \<open>Fuel\<close>

lemma join_items_length:
  assumes "\<And>x. x \<in> set xs \<Longrightarrow> f x \<le> length (g x)" and "sep \<noteq> []"
  shows "size_list f xs \<le> Suc (length (join_items sep (map g xs)))"
  using assms(1)
proof (induction xs)
  case Nil
  show ?case by simp
next
  case (Cons x xs)
  show ?case
  proof (cases "xs = []")
    case True
    with Cons.prems [of x] show ?thesis by simp
  next
    case False
    from Cons have "size_list f xs \<le> Suc (length (join_items sep (map g xs)))" by simp
    moreover have "length sep \<ge> 1" using assms(2) by (cases sep) auto
    ultimately show ?thesis
      using Cons.prems [of x] False by (simp add: join_items_Cons)
  qed
qed

lemma size_le_length_encode: "size j \<le> length (json_encode j l)"
proof (induction j arbitrary: l)
  case (JList xs)
  have "size_list size xs \<le>
        Suc (length (join_items (CHR '','' # newline_indent (Suc l))
               (map (\<lambda>x. json_encode x (Suc l)) xs)))"
    by (rule join_items_length) (simp_all add: JList.IH)
  then show ?case by (simp add: encode_block_def)
next
  case (JDict kvs)
  have "size_list (size_prod (\<lambda>x. 0) size) kvs \<le>
        Suc (length (join_items (CHR '','' # newline_indent (Suc l))
               (map (\<lambda>kv. encode_string (fst kv) @ '': '' @ json_encode (snd kv) (Suc l)) kvs)))"
  proof (rule join_items_length)
    fix kv assume "kv \<in> set kvs"
    moreover have "snd kv \<in> Basic_BNFs.snds kv"
      by (cases kv) simp
    ultimately have "size (snd kv) \<le> length (json_encode (snd kv) (Suc l))"
      by (rule JDict.IH)
    then show "size_prod (\<lambda>x. 0) size kv \<le>
        length (encode_string (fst kv) @ '': '' @ json_encode (snd kv) (Suc l))"
      by (cases kv) simp
  qed simp
  then show ?case by (simp add: encode_block_def)
qed simp_all

lemma json_load_encode: "json_load (json_dump j) = Some j"
proof -
  have "size j < Suc (length (json_encode j 0))"
    using size_le_length_encode [of j 0] by simp
  then have "decode_value (Suc (length (json_encode j 0))) (json_encode j 0 @ []) = Some (j, [])"
    by (rule decode_value_encode) (simp add: ends_number_def)
  then show ?thesis by (simp add: json_load_def json_dump_def skip_ws_def)
qed

subsubsection \<open>The exported document\<close>

lemma length_insert_desc: "length (insert_desc r xs) = Suc (length xs)"
  by (induction xs) auto

lemma length_order_by_created_at_desc: "length (order_by_created_at_desc rows) = length rows"
  unfolding order_by_created_at_desc_def
  by (induction rows) (auto simp: length_insert_desc)

lemma demo_db1_all:
  "get_all_accounts demo_db1 =
     [\<lparr>id_col = 1, email = ''a@example.com'', password = ''pw1'',
       referral_code = ''NPH90834'', created_at = Some 1000, verified = Some 1,
       verification_code = Some ''4242'', points = Some 0, last_task_run = None,
       status = Some ''active'', cookies = Some ''sid=1'', notes_col = None\<rparr>]"
  by (simp add: get_all_accounts_def demo_db1_def add_account_def init_database_def
      next_rowid_def bind_bool_def order_by_created_at_desc_def Let_def)

text \<open>
  C9. Reading the text that \<open>export_to_json\<close> writes gives a document whose
  \<open>accounts\<close> entry is the list of the dictionaries of the rows that \<open>get_all_accounts\<close>
  returns on the store, one for each account and in the same order, with every column of
  the row, and whose \<open>total_accounts\<close> entry is their number, which is the number of rows
  of the table.
\<close>

theorem export_to_json_round_trip:
  "json_load (export_to_json timestamp_text iso_now d) =
     Some (JDict [(''exported_at'', JStr iso_now),
                  (''total_accounts'', JInt (int (length (get_all_accounts d)))),
                  (''accounts'', JList (map (row_to_dict timestamp_text) (get_all_accounts d)))]) \<and>
   length (get_all_accounts d) = length (accounts d)"
  by (simp add: export_to_json_def Let_def json_load_encode get_all_accounts_def
      length_order_by_created_at_desc)

theorem export_to_json_round_trip_witness:
  "json_load (export_to_json (\<lambda>t. ''1970-01-01 00:16:40'') ''2026-01-01T00:00:00'' demo_db1) =
     Some (JDict [(''exported_at'', JStr ''2026-01-01T00:00:00''),
                  (''total_accounts'', JInt 1),
                  (''accounts'',
                   JList [JDict [(''id'', JInt 1),
                                 (''email'', JStr ''a@example.com''),
                                 (''password'', JStr ''pw1''),
                                 (''referral_code'', JStr ''NPH90834''),
                                 (''created_at'', JStr ''1970-01-01 00:16:40''),
                                 (''verified'', JInt 1),
                                 (''verification_code'', JStr ''4242''),
                                 (''points'', JInt 0),
                                 (''last_task_run'', JNull),
                                 (''status'', JStr ''active''),
                                 (''cookies'', JStr ''sid=1''),
                                 (''notes'', JNull)]])])"
  using export_to_json_round_trip
    [of "\<lambda>t. ''1970-01-01 00:16:40''" "''2026-01-01T00:00:00''" demo_db1]
  by (simp add: demo_db1_all row_to_dict_def json_text_def json_integer_def)

subsection \<open>Verified and pending accounts\<close>

lemma verified_is_flag_init: "verified_is_flag (init_database None)"
  by (simp add: verified_is_flag_def init_database_def)

lemma verified_is_flag_step: "verified_is_flag d \<Longrightarrow> verified_is_flag (exec_op jd x d)"
  by (cases x)
     (auto simp: verified_is_flag_def add_account_def update_account_points_def
        record_task_completion_def delete_account_def bind_bool_def Let_def list_all_iff)

lemma verified_is_flag_steps:
  "verified_is_flag d \<Longrightarrow> verified_is_flag (exec_ops jd xs d)"
  by (induction xs arbitrary: d) (auto intro: verified_is_flag_step)

lemma flag_counts:
  "list_all (\<lambda>r. verified r = Some 0 \<or> verified r = Some 1) rows \<Longrightarrow>
   length (filter (\<lambda>r. verified r = Some 1) rows) +
   length (filter (\<lambda>r. verified r = Some 0) rows) = length rows"
  by (induction rows) auto

text \<open>
  C10. After every sequence of calls on a store that starts without tables, every row
  holds 0 or 1 in \<open>verified\<close>, so the rows with \<open>verified = 1\<close> and the rows with
  \<open>verified = 0\<close> are all the rows; and whenever the sum of points fits in 64 bits,
  \<open>get_stats\<close> returns a dictionary whose verified, pending and total accounts are
  these three numbers of rows, and add up.
\<close>

theorem get_stats_counts_partition:
  "verified_is_flag (exec_ops jd xs (init_database None)) \<and>
   length (filter (\<lambda>r. verified r = Some 1) (accounts (exec_ops jd xs (init_database None)))) +
   length (filter (\<lambda>r. verified r = Some 0) (accounts (exec_ops jd xs (init_database None)))) =
   length (accounts (exec_ops jd xs (init_database None))) \<and>
   (sql_sum (map points (accounts (exec_ops jd xs (init_database None)))) = Inr t \<longrightarrow>
    (\<exists>s. get_stats float_div float_mul tie_rank (exec_ops jd xs (init_database None)) = Inr s \<and>
         verified_accounts s =
           int (length (filter (\<lambda>r. verified r = Some 1)
                  (accounts (exec_ops jd xs (init_database None))))) \<and>
         pending_accounts s =
           int (length (filter (\<lambda>r. verified r = Some 0)
                  (accounts (exec_ops jd xs (init_database None))))) \<and>
         total_accounts s = int (length (accounts (exec_ops jd xs (init_database None)))) \<and>
         verified_accounts s + pending_accounts s = total_accounts s))"
proof -
  let ?d = "exec_ops jd xs (init_database None)"
  have flag: "verified_is_flag ?d"
    by (rule verified_is_flag_steps [OF verified_is_flag_init])
  then have part: "length (filter (\<lambda>r. verified r = Some 1) (accounts ?d)) +
      length (filter (\<lambda>r. verified r = Some 0) (accounts ?d)) = length (accounts ?d)"
    unfolding verified_is_flag_def by (rule flag_counts)
  then have ipart: "int (length (filter (\<lambda>r. verified r = Some 1) (accounts ?d))) +
      int (length (filter (\<lambda>r. verified r = Some 0) (accounts ?d))) =
      int (length (accounts ?d))"
    by (simp del: of_nat_add add: of_nat_add [symmetric])
  have stats: "sql_sum (map points (accounts ?d)) = Inr t \<longrightarrow>
    (\<exists>s. get_stats float_div float_mul tie_rank ?d = Inr s \<and>
         verified_accounts s = int (length (filter (\<lambda>r. verified r = Some 1) (accounts ?d))) \<and>
         pending_accounts s = int (length (filter (\<lambda>r. verified r = Some 0) (accounts ?d))) \<and>
         total_accounts s = int (length (accounts ?d)) \<and>
         verified_accounts s + pending_accounts s = total_accounts s)"
  proof (cases "accounts ?d = []")
    case True
    then show ?thesis by (simp add: get_stats_no_rows)
  next
    case False
    with ipart show ?thesis by (auto simp: get_stats_rows)
  qed
  from flag part stats show ?thesis by blast
qed

theorem get_stats_counts_partition_witness:
  "sql_sum (map points (accounts demo_due_db)) = Inr (Some 10) \<and>
   map verified (accounts demo_due_db) = [Some 1, Some 1, Some 1, Some 0] \<and>
   map_sum id verified_accounts
     (get_stats (\<lambda>a b. (of_int a / of_int b :: rat)) (\<lambda>x k. x * of_int k) (\<lambda>c. 0)
        demo_due_db) = Inr 3 \<and>
   map_sum id pending_accounts
     (get_stats (\<lambda>a b. (of_int a / of_int b :: rat)) (\<lambda>x k. x * of_int k) (\<lambda>c. 0)
        demo_due_db) = Inr 1 \<and>
   map_sum id total_accounts
     (get_stats (\<lambda>a b. (of_int a / of_int b :: rat)) (\<lambda>x k. x * of_int k) (\<lambda>c. 0)
        demo_due_db) = Inr 4"
proof -
  have s: "sql_sum (map points (accounts demo_due_db)) = Inr (Some 10)"
    by (simp add: demo_due_db_accounts demo_row_def sql_sum_def int64_def)
  from get_stats_counts_partition
    [of "\<lambda>kv. []"
        "[AddAccount 1000 ''a@example.com'' ''pw1'' ''NPH90834'' True None None,
          AddAccount 1001 ''b@example.com'' ''pw2'' ''NPH90834'' True None None,
          AddAccount 1002 ''c@example.com'' ''pw3'' ''NPH90834'' True None None,
          AddAccount 1003 ''d@example.com'' ''pw4'' ''NPH90834'' False None None,
          UpdateAccountPoints 24400 ''b@example.com'' 5,
          UpdateAccountPoints 64000 ''a@example.com'' 5,
          RecordTaskCompletion 64001 ''a@example.com'' ''daily'' 5 None,
          RecordTaskCompletion 64002 ''b@example.com'' ''daily'' 5 (Some [(''k'', ''v'')]),
          RecordTaskCompletion 64003 ''a@example.com'' ''quiz'' 0 (Some [])]"
        "Some 10" "\<lambda>a b. (of_int a / of_int b :: rat)" "\<lambda>x k. x * of_int k" "\<lambda>c. 0"]
    s
  show ?thesis
    unfolding demo_due_db_def [symmetric]
    by (auto simp: demo_due_db_accounts demo_row_def)
qed

end
